theory Spec2Isabelle
  imports Complex_Main "HOL-Library.AList"
begin

section \<open>Data model of lib/features/overlays/Overlays.js\<close>

text \<open>
  JavaScript numbers are modelled as \<^typ>\<open>real\<close>; a property that may be
  \<open>undefined\<close> is an \<^typ>\<open>'a option\<close>. JavaScript objects that are shared
  and mutated in place live in explicit stores: diagram elements in the store of the
  diagram (owned by the host, read only by this module), overlay objects in the
  store \<open>m_heap\<close> of the manager. Plain objects used as dictionaries are maps.
\<close>

type_synonym eref = nat  \<comment> \<open>reference to a diagram element object\<close>
type_synonym oref = nat  \<comment> \<open>reference to an overlay object\<close>

record element =
  el_id :: string
  el_x :: real
  el_y :: real
  el_width :: real
  el_height :: real
  el_waypoints :: "(real \<times> real) list option"

record bbox =
  bb_x :: real
  bb_y :: real
  bb_width :: real
  bb_height :: real

text \<open>The \<open>element\<close> argument of the public functions: an id or an element object.\<close>

datatype elem_arg = ElemId string | ElemObj eref

datatype error = Error string | TypeError

datatype html_src = HtmlString string | HtmlDom nat

text \<open>
  The collaborators of the module: the element objects as they are when a function
  runs, \<open>elementRegistry.get\<close>, \<open>getBBox\<close> of util/Elements and the function
  \<open>$\<close> of jQuery (none of them part of this file, all taken as parameters). Of
  \<open>$(html)\<close> only the error is kept that it throws, if it throws one, as it does
  for a string that is neither markup nor a selector.
\<close>

record diagram =
  d_elements :: "eref \<Rightarrow> element"
  d_registry :: "elem_arg \<Rightarrow> eref option"
  d_getBBox :: "element \<Rightarrow> bbox"
  d_jQuery :: "html_src \<Rightarrow> error option"

record position =
  pos_left :: "real option"
  pos_top :: "real option"
  pos_right :: "real option"
  pos_bottom :: "real option"

record show_cfg =
  sh_trigger :: "string option"
  sh_minZoom :: "real option"
  sh_maxZoom :: "real option"

text \<open>
  The \<open>show\<close> key of the overlay passed to \<open>add\<close>: not there (the default
  applies), there with a falsy value, or there with an object.
\<close>

datatype show_arg = ShowAbsent | ShowFalsy | ShowObj show_cfg

record overlay_cfg =
  cfg_position :: "position option"
  cfg_html :: "html_src option"
  cfg_show :: show_arg

text \<open>The second argument of \<open>add\<close>: a type, the overlay itself, or null/undefined.\<close>

datatype type_arg = TypeStr string | TypeObj overlay_cfg | TypeNone

text \<open>The DOM wrapper \<open>htmlContainer\<close> of an overlay: its css offsets and display state.\<close>

record wrapper =
  w_left :: "real option"
  w_top :: "real option"
  w_shown :: bool
  w_classes :: "string list"

record overlay =
  ov_id :: string
  ov_type :: "string option"
  ov_element :: "eref option"
  ov_html :: html_src
  ov_position :: position
  ov_show :: "show_cfg option"
  ov_htmlContainer :: "wrapper option"

record container =
  c_element :: eref
  c_overlays :: "oref list"
  c_left :: "real option"
  c_top :: "real option"
  c_classes :: "string list"

record viewbox =
  vb_x :: real
  vb_y :: real
  vb_scale :: real

record config =
  deferUpdate :: "bool option"

text \<open>
  Modelled from the spec: util/IdGenerator is not part of this file. The spec says of
  an overlay id: "unique string, generated by a monotonic counter scoped to this module
  instance". The generator is a prefix and a counter; \<open>next\<close> increments the counter
  and returns the prefix followed by the counter in decimal.
\<close>

record id_generator =
  g_prefix :: string
  g_counter :: nat

fun dec :: "nat \<Rightarrow> string" where
  "dec n = (if n < 10 then [char_of (48 + n)]
            else dec (n div 10) @ [char_of (48 + n mod 10)])"

declare dec.simps [simp del]

definition next_id :: "id_generator \<Rightarrow> string \<times> id_generator" where
  "next_id g = (g_prefix g @ dec (Suc (g_counter g)), g\<lparr>g_counter := Suc (g_counter g)\<rparr>)"

text \<open>
  The manager. \<open>m_overlays\<close> is \<open>this._overlays\<close> in insertion order,
  \<open>m_overlayContainers\<close> is \<open>this._overlayContainers\<close>, \<open>m_rootShown\<close> and
  \<open>m_rootTransform\<close> are the display state and the transform of
  \<open>this._overlayRoot\<close>. \<open>m_nextRef\<close> is the next unused overlay reference.

  \<open>m_deferUpdate\<close> and \<open>m_pending\<close> stand for the closure variable
  \<open>updateViewbox\<close> of \<open>_init\<close>: whether it was wrapped in \<open>debounce\<close>, and
  the trailing call that is waiting (its due time in milliseconds and its argument).
  \<open>m_passes\<close> records the argument of every run of \<open>_updateOverlayVisibilty\<close>;
  the program does not read it.
\<close>

record manager =
  m_ids :: id_generator
  m_overlays :: "(string \<times> oref) list"
  m_overlayContainers :: "string \<Rightarrow> container option"
  m_rootShown :: bool
  m_rootTransform :: "(real \<times> real \<times> real \<times> real) option"
  m_heap :: "oref \<Rightarrow> overlay"
  m_nextRef :: oref
  m_deferUpdate :: bool
  m_pending :: "(nat \<times> viewbox) option"
  m_passes :: "viewbox list"

definition overlayDefaults :: show_cfg where
  "overlayDefaults =
     \<lparr>sh_trigger = Some ''automatic'', sh_minZoom = Some 0.7, sh_maxZoom = Some 5.0\<rparr>"

definition blank_overlay :: overlay where
  "blank_overlay =
     \<lparr>ov_id = [], ov_type = None, ov_element = None, ov_html = HtmlString [],
      ov_position = \<lparr>pos_left = None, pos_top = None, pos_right = None, pos_bottom = None\<rparr>,
      ov_show = None, ov_htmlContainer = None\<rparr>"

text \<open>
  The constructor followed by the part of \<open>_init\<close> that decides on the debounce:
  \<open>if (!config || config.deferUpdate !== false)\<close>.
\<close>

definition Overlays :: "config option \<Rightarrow> id_generator \<Rightarrow> manager" where
  "Overlays cfg ids =
     \<lparr>m_ids = ids, m_overlays = [], m_overlayContainers = (\<lambda>_. None),
      m_rootShown = True, m_rootTransform = None,
      m_heap = (\<lambda>_. blank_overlay), m_nextRef = 0,
      m_deferUpdate = (case cfg of None \<Rightarrow> True | Some c \<Rightarrow> deferUpdate c \<noteq> Some False),
      m_pending = None, m_passes = []\<rparr>"

section \<open>Operations\<close>

subsection \<open>Property lookup on plain objects\<close>

text \<open>
  \<open>this._overlays\<close> and \<open>this._overlayContainers\<close> are created as \<open>{}\<close>, so a
  lookup \<open>obj[key]\<close> that finds no property of the object itself goes on to
  \<open>Object.prototype\<close>. Under the names below it finds a function (the prototype
  itself under \<open>__proto__\<close>): a truthy value that is not an array and has none of
  the properties \<open>overlays\<close>, \<open>html\<close> and \<open>element\<close>. The source stores
  only under keys that a lookup has found missing, so it never stores under these names.
\<close>

datatype 'a property = Own 'a | Inherited | Missing

definition object_prototype_names :: "string list" where
  "object_prototype_names =
     [''constructor'', ''toString'', ''toLocaleString'', ''valueOf'', ''hasOwnProperty'',
      ''isPrototypeOf'', ''propertyIsEnumerable'', ''__proto__'', ''__defineGetter__'',
      ''__defineSetter__'', ''__lookupGetter__'', ''__lookupSetter__'']"

definition lookup :: "(string \<Rightarrow> 'a option) \<Rightarrow> string \<Rightarrow> 'a property" where
  "lookup m k =
     (case m k of
        Some v \<Rightarrow> Own v
      | None \<Rightarrow> if k \<in> set object_prototype_names then Inherited else Missing)"

subsection \<open>JavaScript truthiness of the values involved\<close>

definition truthy_str :: "string option \<Rightarrow> bool" where
  "truthy_str v = (case v of None \<Rightarrow> False | Some str \<Rightarrow> str \<noteq> [])"

definition truthy_elem :: "elem_arg option \<Rightarrow> bool" where
  "truthy_elem v =
     (case v of None \<Rightarrow> False | Some (ElemId str) \<Rightarrow> str \<noteq> [] | Some (ElemObj r) \<Rightarrow> True)"

text \<open>\<open>!overlay.html\<close>: the key is not there, or it is the empty string.\<close>

definition falsy_html :: "html_src option \<Rightarrow> bool" where
  "falsy_html v =
     (case v of None \<Rightarrow> True | Some (HtmlString str) \<Rightarrow> str = [] | Some (HtmlDom n) \<Rightarrow> False)"

text \<open>\<open>v || 0\<close> on a number or undefined.\<close>

definition or_zero :: "real option \<Rightarrow> real" where
  "or_zero v = (case v of None \<Rightarrow> 0 | Some r \<Rightarrow> if r = 0 then 0 else r)"

subsection \<open>Containers\<close>

text \<open>
  \<open>var id = (element && element.id) || element\<close>, used as a key of
  \<open>this._overlayContainers\<close>: undefined and an object without a truthy id are
  turned into strings by the property access.
\<close>

fun container_key :: "diagram \<Rightarrow> elem_arg option \<Rightarrow> string" where
  "container_key d None = ''undefined''"
| "container_key d (Some (ElemId str)) = str"
| "container_key d (Some (ElemObj r)) =
     (if el_id (d_elements d r) = [] then ''[object Object]'' else el_id (d_elements d r))"

definition updateOverlayContainer :: "diagram \<Rightarrow> container \<Rightarrow> container" where
  "updateOverlayContainer d c =
     (let element = d_elements d (c_element c) in
      if el_waypoints element \<noteq> None
      then c\<lparr>c_left := Some (bb_x (d_getBBox d element)),
             c_top := Some (bb_y (d_getBBox d element))\<rparr>
      else c\<lparr>c_left := Some (el_x element), c_top := Some (el_y element)\<rparr>)"

definition createOverlayContainer :: "diagram \<Rightarrow> eref \<Rightarrow> container" where
  "createOverlayContainer d r =
     updateOverlayContainer d
       \<lparr>c_element = r, c_overlays = [], c_left = None, c_top = None,
        c_classes = [''djs-overlays'', ''djs-overlays-'' @ el_id (d_elements d r)]\<rparr>"

text \<open>\<open>_getOverlayContainer(element, true)\<close>: a lookup that creates nothing.\<close>

definition getOverlayContainer ::
  "diagram \<Rightarrow> elem_arg option \<Rightarrow> manager \<Rightarrow> container property" where
  "getOverlayContainer d element s = lookup (m_overlayContainers s) (container_key d element)"

text \<open>
  \<open>_getOverlayContainer(element)\<close>: its one call, in \<open>_addOverlay\<close>, passes the
  element object of the overlay. A container is created and stored only when the lookup
  is falsy; an inherited member is returned as it is. The function returns the key with
  what it found, which for a container is the object stored under that key.
\<close>

definition getOverlayContainer_create ::
  "diagram \<Rightarrow> eref \<Rightarrow> manager \<Rightarrow> (string \<times> container property) \<times> manager" where
  "getOverlayContainer_create d r s =
     (let k = container_key d (Some (ElemObj r)) in
      case lookup (m_overlayContainers s) k of
        Own c \<Rightarrow> ((k, Own c), s)
      | Inherited \<Rightarrow> ((k, Inherited), s)
      | Missing \<Rightarrow>
          (let c = createOverlayContainer d r
           in ((k, Own c), s\<lparr>m_overlayContainers := (m_overlayContainers s)(k \<mapsto> c)\<rparr>)))"

subsection \<open>get\<close>

record search =
  s_id :: "string option"
  s_element :: "elem_arg option"
  s_type :: "string option"

datatype search_arg = SearchString string | SearchObj search

text \<open>
  What \<open>get\<close> returns: an overlay object, an array of overlay objects, a member of
  \<open>Object.prototype\<close>, null or undefined.
\<close>

datatype get_result = One oref | Many "oref list" | Member | Null | Undefined

definition falsy_result :: "get_result \<Rightarrow> bool" where
  "falsy_result r = (r = Null \<or> r = Undefined)"

text \<open>
  lodash \<open>filter(collection, { type: t })\<close> on overlay references. \<open>filter\<close> and
  \<open>clone\<close> build a new array; on \<open>undefined\<close>, which is what
  \<open>container.overlays\<close> is when the container is an inherited member, \<open>filter\<close>
  returns the empty array and \<open>clone\<close> returns \<open>undefined\<close>.
\<close>

definition filter_type :: "manager \<Rightarrow> string option \<Rightarrow> oref list \<Rightarrow> oref list" where
  "filter_type s t as = filter (\<lambda>a. ov_type (m_heap s a) = t) as"

definition get_search :: "diagram \<Rightarrow> search \<Rightarrow> manager \<Rightarrow> get_result" where
  "get_search d q s =
     (if truthy_elem (s_element q) then
        (case getOverlayContainer d (s_element q) s of
           Own c \<Rightarrow>
             Many (if truthy_str (s_type q) then filter_type s (s_type q) (c_overlays c)
                   else c_overlays c)
         | Inherited \<Rightarrow> if truthy_str (s_type q) then Many [] else Undefined
         | Missing \<Rightarrow> Many [])
      else if truthy_str (s_type q) then
        Many (filter_type s (s_type q) (map snd (m_overlays s)))
      else if truthy_str (s_id q) then
        (case lookup (map_of (m_overlays s)) (the (s_id q)) of
           Own a \<Rightarrow> One a
         | Inherited \<Rightarrow> Member
         | Missing \<Rightarrow> Undefined)
      else Null)"

fun get :: "diagram \<Rightarrow> search_arg \<Rightarrow> manager \<Rightarrow> get_result" where
  "get d (SearchString str) s =
     get_search d \<lparr>s_id = Some str, s_element = None, s_type = None\<rparr> s"
| "get d (SearchObj q) s = get_search d q s"

declare get.simps [simp del]

subsection \<open>Positioning\<close>

definition elem_width :: "diagram \<Rightarrow> element \<Rightarrow> real" where
  "elem_width d element =
     (if el_waypoints element \<noteq> None then bb_width (d_getBBox d element) else el_width element)"

definition elem_height :: "diagram \<Rightarrow> element \<Rightarrow> real" where
  "elem_height d element =
     (if el_waypoints element \<noteq> None then bb_height (d_getBBox d element) else el_height element)"

text \<open>
  \<open>_updateOverlay\<close>. The offsets it passes to \<open>css\<close> are \<open>left || 0\<close> and
  \<open>top || 0\<close>, where \<open>position.right\<close> and \<open>position.bottom\<close>, when they are
  not undefined, replace \<open>position.left\<close> and \<open>position.top\<close>.
\<close>

definition overlay_left :: "diagram \<Rightarrow> position \<Rightarrow> element \<Rightarrow> real" where
  "overlay_left d position element =
     or_zero (case pos_right position of
                None \<Rightarrow> pos_left position
              | Some right \<Rightarrow> Some (right * -1 + elem_width d element))"

definition overlay_top :: "diagram \<Rightarrow> position \<Rightarrow> element \<Rightarrow> real" where
  "overlay_top d position element =
     or_zero (case pos_bottom position of
                None \<Rightarrow> pos_top position
              | Some bottom \<Rightarrow> Some (bottom * -1 + elem_height d element))"

text \<open>
  Reading \<open>element.waypoints\<close> of a deleted element and calling \<open>css\<close> on a deleted
  \<open>htmlContainer\<close> throw a TypeError; nothing was written before.
\<close>

definition updateOverlay :: "diagram \<Rightarrow> oref \<Rightarrow> manager \<Rightarrow> error option \<times> manager" where
  "updateOverlay d a s =
     (let ov = m_heap s a; position = ov_position ov in
      if (pos_right position \<noteq> None \<or> pos_bottom position \<noteq> None) \<and> ov_element ov = None
      then (Some TypeError, s)
      else
        (let element = d_elements d (the (ov_element ov)) in
         case ov_htmlContainer ov of
           None \<Rightarrow> (Some TypeError, s)
         | Some w \<Rightarrow>
             (None, s\<lparr>m_heap := (m_heap s)
                (a := ov\<lparr>ov_htmlContainer :=
                           Some (w\<lparr>w_left := Some (overlay_left d position element),
                                   w_top := Some (overlay_top d position element)\<rparr>)\<rparr>)\<rparr>)))"

subsection \<open>add\<close>

text \<open>
  \<open>_addOverlay\<close> on the overlay object at reference \<open>a\<close>, whose element is \<open>r\<close>.
  When the lookup of the container has found an inherited member,
  \<open>container.overlays.push\<close> throws a TypeError; the overlay has its wrapper by
  then, but is in neither map.
\<close>

definition addOverlay :: "diagram \<Rightarrow> oref \<Rightarrow> eref \<Rightarrow> manager \<Rightarrow> error option \<times> manager" where
  "addOverlay d a r s =
     (let ((k, found), s1) = getOverlayContainer_create d r s;
          ov = m_heap s1 a;
          htmlContainer =
            \<lparr>w_left = None, w_top = None, w_shown = True,
             w_classes = ''djs-overlay'' #
               (if truthy_str (ov_type ov) then [''djs-overlay-'' @ the (ov_type ov)] else [])\<rparr>;
          s2 = s1\<lparr>m_heap := (m_heap s1)(a := ov\<lparr>ov_htmlContainer := Some htmlContainer\<rparr>)\<rparr>
      in case found of
           Own c \<Rightarrow>
             (let s3 = s2\<lparr>m_overlayContainers :=
                        (m_overlayContainers s2)(k \<mapsto> c\<lparr>c_overlays := c_overlays c @ [a]\<rparr>)\<rparr>;
                  s4 = s3\<lparr>m_overlays := AList.update (ov_id ov) a (m_overlays s3)\<rparr>
              in updateOverlay d a s4)
         | _ \<Rightarrow> (Some TypeError, s2))"

text \<open>
  The head of \<open>add\<close>: \<open>if (isObject(type)) { overlay = type; type = null; }\<close> and
  \<open>if (!element.id) { element = this._elementRegistry.get(element); }\<close>.
\<close>

definition overlay_given :: "type_arg \<Rightarrow> overlay_cfg option \<Rightarrow> overlay_cfg option" where
  "overlay_given type overlay = (case type of TypeObj ob \<Rightarrow> Some ob | _ \<Rightarrow> overlay)"

definition type_given :: "type_arg \<Rightarrow> string option" where
  "type_given type = (case type of TypeStr t \<Rightarrow> Some t | _ \<Rightarrow> None)"

definition resolve_element :: "diagram \<Rightarrow> elem_arg \<Rightarrow> eref option" where
  "resolve_element d element =
     (case element of
        ElemObj r \<Rightarrow> if el_id (d_elements d r) \<noteq> [] then Some r else d_registry d element
      | ElemId str \<Rightarrow> d_registry d element)"

text \<open>
  Reading \<open>overlay.position\<close> when no overlay was passed throws a TypeError. After the
  three checks \<open>this._ids.next()\<close> runs, then \<open>$(overlay.html)\<close>, which may
  throw, and only then the overlay object is built. The state returned with an error is
  the state when it was thrown.
\<close>

definition add ::
  "diagram \<Rightarrow> elem_arg \<Rightarrow> type_arg \<Rightarrow> overlay_cfg option \<Rightarrow> manager
     \<Rightarrow> (error + string) \<times> manager" where
  "add d element type overlay s =
     (case overlay_given type overlay of
        None \<Rightarrow> (Inl TypeError, s)
      | Some ob \<Rightarrow>
          (case cfg_position ob of
             None \<Rightarrow> (Inl (Error ''must specifiy overlay position''), s)
           | Some position \<Rightarrow>
               if falsy_html (cfg_html ob)
               then (Inl (Error ''must specifiy overlay html''), s)
               else
                 (case resolve_element d element of
                    None \<Rightarrow> (Inl (Error ''invalid element specified''), s)
                  | Some r \<Rightarrow>
                      (let (new_id, g) = next_id (m_ids s) in
                       case d_jQuery d (the (cfg_html ob)) of
                         Some e \<Rightarrow> (Inl e, s\<lparr>m_ids := g\<rparr>)
                       | None \<Rightarrow>
                           (let ov = \<lparr>ov_id = new_id, ov_type = type_given type,
                                      ov_element = Some r,
                                      ov_html = the (cfg_html ob), ov_position = position,
                                      ov_show = (case cfg_show ob of
                                                   ShowAbsent \<Rightarrow> Some overlayDefaults
                                                 | ShowFalsy \<Rightarrow> None
                                                 | ShowObj sh \<Rightarrow> Some sh),
                                      ov_htmlContainer = None\<rparr>;
                                a = m_nextRef s;
                                s1 = s\<lparr>m_ids := g, m_heap := (m_heap s)(a := ov),
                                       m_nextRef := Suc a\<rparr>
                            in case addOverlay d a r s1 of
                                 (Some e, s2) \<Rightarrow> (Inl e, s2)
                               | (None, s2) \<Rightarrow> (Inr new_id, s2))))))"

subsection \<open>remove\<close>

text \<open>
  The callback of \<open>forEach\<close> in \<open>remove\<close>, on one overlay object. The container is
  looked up before the element is deleted from the overlay; \<open>indexOf\<close> with
  \<open>splice(idx, 1)\<close> removes the first occurrence. When the lookup has found an
  inherited member, \<open>container.overlays.indexOf\<close> throws a TypeError, after the
  overlay was deleted from the id map.
\<close>

definition remove_overlay :: "diagram \<Rightarrow> oref \<Rightarrow> manager \<Rightarrow> error option \<times> manager" where
  "remove_overlay d a s =
     (let ov = m_heap s a;
          k = container_key d (map_option ElemObj (ov_element ov))
      in case ov_htmlContainer ov of
           None \<Rightarrow> (Some TypeError, s)
         | Some w \<Rightarrow>
             (let s1 = s\<lparr>m_heap := (m_heap s)
                           (a := ov\<lparr>ov_htmlContainer := None, ov_element := None\<rparr>),
                         m_overlays := AList.delete (ov_id ov) (m_overlays s)\<rparr>
              in case lookup (m_overlayContainers s1) k of
                   Missing \<Rightarrow> (None, s1)
                 | Inherited \<Rightarrow> (Some TypeError, s1)
                 | Own c \<Rightarrow>
                     (None,
                      if a \<in> set (c_overlays c)
                      then s1\<lparr>m_overlayContainers :=
                                (m_overlayContainers s1)
                                  (k \<mapsto> c\<lparr>c_overlays := remove1 a (c_overlays c)\<rparr>)\<rparr>
                      else s1)))"

fun remove_each :: "diagram \<Rightarrow> oref list \<Rightarrow> manager \<Rightarrow> error option \<times> manager" where
  "remove_each d [] s = (None, s)"
| "remove_each d (a # as) s =
     (case remove_overlay d a s of
        (Some e, s1) \<Rightarrow> (Some e, s1)
      | (None, s1) \<Rightarrow> remove_each d as s1)"

text \<open>
  \<open>remove\<close>. An inherited member that \<open>get\<close> returns is truthy and not an array,
  so the callback runs on it, finds it truthy and throws a TypeError at
  \<open>overlay.html.remove()\<close>, before anything is written.
\<close>

definition remove :: "diagram \<Rightarrow> search_arg \<Rightarrow> manager \<Rightarrow> error option \<times> manager" where
  "remove d flt s =
     (case get d flt s of
        One a \<Rightarrow> remove_each d [a] s
      | Many as \<Rightarrow> remove_each d as s
      | Member \<Rightarrow> (Some TypeError, s)
      | _ \<Rightarrow> remove_each d [] s)"

subsection \<open>show, hide and the viewbox\<close>

definition show_overlays :: "manager \<Rightarrow> manager" where
  "show_overlays s = s\<lparr>m_rootShown := True\<rparr>"

definition hide_overlays :: "manager \<Rightarrow> manager" where
  "hide_overlays s = s\<lparr>m_rootShown := False\<rparr>"

definition updateRoot :: "viewbox \<Rightarrow> manager \<Rightarrow> manager" where
  "updateRoot vb s =
     (let a = (if vb_scale vb = 0 then 1 else vb_scale vb);
          d = (if vb_scale vb = 0 then 1 else vb_scale vb)
      in s\<lparr>m_rootTransform := Some (a, d, -1 * vb_x vb * a, -1 * vb_y vb * d)\<rparr>)"

text \<open>
  \<open>overlay.show.minZoom > viewbox.scale || overlay.show.maxZoom < viewbox.scale\<close>;
  a comparison with undefined is false.
\<close>

definition out_of_range :: "show_cfg \<Rightarrow> viewbox \<Rightarrow> bool" where
  "out_of_range sh vb =
     ((case sh_minZoom sh of None \<Rightarrow> False | Some m \<Rightarrow> m > vb_scale vb) \<or>
      (case sh_maxZoom sh of None \<Rightarrow> False | Some m \<Rightarrow> m < vb_scale vb))"

fun visibility_each :: "viewbox \<Rightarrow> oref list \<Rightarrow> manager \<Rightarrow> error option \<times> manager" where
  "visibility_each vb [] s = (None, s)"
| "visibility_each vb (a # as) s =
     (let ov = m_heap s a in
      case ov_show ov of
        None \<Rightarrow> visibility_each vb as s
      | Some sh \<Rightarrow>
          (case ov_htmlContainer ov of
             None \<Rightarrow> (Some TypeError, s)
           | Some w \<Rightarrow>
               visibility_each vb as
                 (s\<lparr>m_heap := (m_heap s)
                      (a := ov\<lparr>ov_htmlContainer :=
                                 Some (w\<lparr>w_shown := \<not> out_of_range sh vb\<rparr>)\<rparr>)\<rparr>)))"

definition updateOverlayVisibilty :: "viewbox \<Rightarrow> manager \<Rightarrow> error option \<times> manager" where
  "updateOverlayVisibilty vb s =
     visibility_each vb (map snd (m_overlays s)) (s\<lparr>m_passes := m_passes s @ [vb]\<rparr>)"

text \<open>The function \<open>updateViewbox\<close> of \<open>_init\<close>, before it is wrapped.\<close>

definition updateViewbox :: "viewbox \<Rightarrow> manager \<Rightarrow> error option \<times> manager" where
  "updateViewbox vb s =
     (case updateOverlayVisibilty vb (updateRoot vb s) of
        (Some e, s1) \<Rightarrow> (Some e, s1)
      | (None, s1) \<Rightarrow> (None, show_overlays s1))"

subsection \<open>Event handlers\<close>

text \<open>
  Modelled from the spec: lodash's \<open>debounce\<close> and the timers of the host are not
  part of this file. The spec says that viewbox-change handling is "coalesced to fire at
  most once per a fixed quiet period, default 300ms", that a new call "cancels/replaces
  the pending trailing call rather than queuing multiple", and that debounce is
  "coalescing rapid repeated triggers into one delayed execution using the latest
  arguments". A call at time \<open>now\<close> replaces the waiting call by one that is due at
  \<open>now + 300\<close>; the timer runs the waiting call once it is due.
\<close>

definition debounce_wait :: nat where
  "debounce_wait = 300"

definition debounced_updateViewbox :: "nat \<Rightarrow> viewbox \<Rightarrow> manager \<Rightarrow> manager" where
  "debounced_updateViewbox now vb s = s\<lparr>m_pending := Some (now + debounce_wait, vb)\<rparr>"

definition timer_fired :: "nat \<Rightarrow> manager \<Rightarrow> error option \<times> manager" where
  "timer_fired now s =
     (case m_pending s of
        None \<Rightarrow> (None, s)
      | Some (due, vb) \<Rightarrow>
          if due \<le> now then updateViewbox vb (s\<lparr>m_pending := None\<rparr>) else (None, s))"

text \<open>The handler of \<open>canvas.viewbox.changed\<close>.\<close>

definition on_viewbox_changed :: "nat \<Rightarrow> viewbox \<Rightarrow> manager \<Rightarrow> error option \<times> manager" where
  "on_viewbox_changed now vb s =
     (let s1 = hide_overlays s in
      if m_deferUpdate s1 then (None, debounced_updateViewbox now vb s1)
      else updateViewbox vb s1)"

text \<open>The handler of \<open>shape.remove\<close> and \<open>connection.remove\<close>.\<close>

fun remove_ids_each :: "diagram \<Rightarrow> oref list \<Rightarrow> manager \<Rightarrow> error option \<times> manager" where
  "remove_ids_each d [] s = (None, s)"
| "remove_ids_each d (a # as) s =
     (case remove d (SearchString (ov_id (m_heap s a))) s of
        (Some e, s1) \<Rightarrow> (Some e, s1)
      | (None, s1) \<Rightarrow> remove_ids_each d as s1)"

definition on_element_remove :: "diagram \<Rightarrow> eref \<Rightarrow> manager \<Rightarrow> error option \<times> manager" where
  "on_element_remove d r s =
     (case get d (SearchObj \<lparr>s_id = None, s_element = Some (ElemObj r), s_type = None\<rparr>) s of
        Many as \<Rightarrow> remove_ids_each d as s
      | _ \<Rightarrow> (None, s))"

text \<open>
  The handler of \<open>element.changed\<close>. For an inherited member the loop has nothing to
  run over and \<open>_updateOverlayContainer\<close> throws a TypeError at \<open>element.x\<close>.
\<close>

fun updateOverlay_each :: "diagram \<Rightarrow> oref list \<Rightarrow> manager \<Rightarrow> error option \<times> manager" where
  "updateOverlay_each d [] s = (None, s)"
| "updateOverlay_each d (a # as) s =
     (case updateOverlay d a s of
        (Some e, s1) \<Rightarrow> (Some e, s1)
      | (None, s1) \<Rightarrow> updateOverlay_each d as s1)"

definition on_element_changed :: "diagram \<Rightarrow> eref \<Rightarrow> manager \<Rightarrow> error option \<times> manager" where
  "on_element_changed d r s =
     (let k = container_key d (Some (ElemObj r)) in
      case getOverlayContainer d (Some (ElemObj r)) s of
        Missing \<Rightarrow> (None, s)
      | Inherited \<Rightarrow> (Some TypeError, s)
      | Own c \<Rightarrow>
          (case updateOverlay_each d (c_overlays c) s of
             (Some e, s1) \<Rightarrow> (Some e, s1)
           | (None, s1) \<Rightarrow>
               (None, s1\<lparr>m_overlayContainers :=
                          (m_overlayContainers s1)(k \<mapsto> updateOverlayContainer d c)\<rparr>)))"

text \<open>
  The handler of \<open>element.marker.update\<close>. For an inherited member
  \<open>container.html[...]\<close> throws a TypeError.
\<close>

definition on_marker_update ::
  "diagram \<Rightarrow> eref \<Rightarrow> string \<Rightarrow> bool \<Rightarrow> manager \<Rightarrow> error option \<times> manager" where
  "on_marker_update d r marker adding s =
     (let k = container_key d (Some (ElemObj r)) in
      case getOverlayContainer d (Some (ElemObj r)) s of
        Missing \<Rightarrow> (None, s)
      | Inherited \<Rightarrow> (Some TypeError, s)
      | Own c \<Rightarrow>
          (None,
           s\<lparr>m_overlayContainers := (m_overlayContainers s)
               (k \<mapsto> c\<lparr>c_classes :=
                          (if adding
                           then (if marker \<in> set (c_classes c) then c_classes c
                                 else c_classes c @ [marker])
                           else removeAll marker (c_classes c))\<rparr>)\<rparr>))"

subsection \<open>Runs of the manager\<close>

text \<open>
  What can happen to a manager: a call of its public functions, one of the events it
  listens to, or the timer of the debounce. Each happens at a time (in milliseconds)
  and finds the diagram in some state.
\<close>

datatype action =
    Add elem_arg type_arg "overlay_cfg option"
  | Remove search_arg
  | Show
  | Hide
  | ViewboxChanged viewbox
  | ElementRemove eref
  | ElementChanged eref
  | MarkerUpdate eref string bool
  | TimerFired

definition thrown :: "error option \<times> manager \<Rightarrow> (error + string option) \<times> manager" where
  "thrown p = (case fst p of Some e \<Rightarrow> Inl e | None \<Rightarrow> Inr None, snd p)"

fun step :: "nat \<times> diagram \<times> action \<Rightarrow> manager \<Rightarrow> (error + string option) \<times> manager" where
  "step (now, d, Add element type overlay) s =
     (case add d element type overlay s of
        (Inl e, s1) \<Rightarrow> (Inl e, s1)
      | (Inr new_id, s1) \<Rightarrow> (Inr (Some new_id), s1))"
| "step (now, d, Remove flt) s = thrown (remove d flt s)"
| "step (now, d, Show) s = (Inr None, show_overlays s)"
| "step (now, d, Hide) s = (Inr None, hide_overlays s)"
| "step (now, d, ViewboxChanged vb) s = thrown (on_viewbox_changed now vb s)"
| "step (now, d, ElementRemove r) s = thrown (on_element_remove d r s)"
| "step (now, d, ElementChanged r) s = thrown (on_element_changed d r s)"
| "step (now, d, MarkerUpdate r marker adding) s = thrown (on_marker_update d r marker adding s)"
| "step (now, d, TimerFired) s = thrown (timer_fired now s)"

fun run :: "(nat \<times> diagram \<times> action) list \<Rightarrow> manager \<Rightarrow> (error + string option) list \<times> manager" where
  "run [] s = ([], s)"
| "run (x # xs) s =
     (let (out, s1) = step x s; (outs, s2) = run xs s1 in (out # outs, s2))"

fun returned_ids :: "(error + string option) list \<Rightarrow> string list" where
  "returned_ids [] = []"
| "returned_ids (Inr (Some new_id) # outs) = new_id # returned_ids outs"
| "returned_ids (_ # outs) = returned_ids outs"

section \<open>Notions used in the properties\<close>

text \<open>
  When \<open>add\<close> throws before it changes anything: the element does not resolve, no
  overlay object is passed, its position is missing, or \<open>!overlay.html\<close> holds.
\<close>

definition add_rejects :: "diagram \<Rightarrow> elem_arg \<Rightarrow> type_arg \<Rightarrow> overlay_cfg option \<Rightarrow> bool" where
  "add_rejects d element type overlay =
     (resolve_element d element = None \<or>
      (case overlay_given type overlay of
         None \<Rightarrow> True
       | Some ob \<Rightarrow> cfg_position ob = None \<or> falsy_html (cfg_html ob)))"

subsection \<open>A small diagram for concrete runs\<close>

definition shape1 :: element where
  "shape1 = \<lparr>el_id = ''shape1'', el_x = 10, el_y = 20, el_width = 100, el_height = 80,
              el_waypoints = None\<rparr>"

definition connection1 :: element where
  "connection1 = \<lparr>el_id = ''connection1'', el_x = 0, el_y = 0, el_width = 0, el_height = 0,
                   el_waypoints = Some [(10, 10), (60, 50)]\<rparr>"

definition diagram1 :: diagram where
  "diagram1 =
     \<lparr>d_elements = (\<lambda>r. if r = 0 then shape1 else connection1),
      d_registry = (\<lambda>e. if e = ElemId ''shape1'' then Some 0
                         else if e = ElemId ''connection1'' then Some 1 else None),
      d_getBBox = (\<lambda>e. \<lparr>bb_x = 10, bb_y = 10, bb_width = 50, bb_height = 40\<rparr>),
      d_jQuery = (\<lambda>h. if h = HtmlString ''hello world!''
                       then Some (Error ''Syntax error, unrecognized expression: hello world!'')
                       else None)\<rparr>"

definition ids1 :: id_generator where
  "ids1 = \<lparr>g_prefix = ''ov-'', g_counter = 0\<rparr>"

definition manager1 :: manager where
  "manager1 = Overlays None ids1"

definition badge :: overlay_cfg where
  "badge = \<lparr>cfg_position = Some \<lparr>pos_left = None, pos_top = None, pos_right = Some 10,
                                   pos_bottom = Some 5\<rparr>,
            cfg_html = Some (HtmlString ''<div>0</div>''), cfg_show = ShowAbsent\<rparr>"

subsection \<open>Consistency of the manager\<close>

text \<open>
  The key under which \<open>remove\<close> looks for the container of the overlay at \<open>a\<close>, the
  ids a generator has returned so far, and the overlays of the container stored under a
  key (none when there is no container).
\<close>

definition okey :: "diagram \<Rightarrow> manager \<Rightarrow> oref \<Rightarrow> string" where
  "okey d s a = container_key d (map_option ElemObj (ov_element (m_heap s a)))"

definition issued :: "id_generator \<Rightarrow> string \<Rightarrow> bool" where
  "issued g k = (\<exists>n\<in>{1..g_counter g}. k = g_prefix g @ dec n)"

definition container_overlays :: "manager \<Rightarrow> string \<Rightarrow> oref list" where
  "container_overlays s k = (case m_overlayContainers s k of None \<Rightarrow> [] | Some c \<Rightarrow> c_overlays c)"

text \<open>
  A manager is consistent when the ids and the references in its id map are distinct,
  every overlay in the id map is stored under its own id, which the generator returned,
  has its wrapper and its element, and the container under each key holds exactly the
  overlays of the id map whose element has that key, in the order of the id map.
\<close>

definition consistent :: "diagram \<Rightarrow> manager \<Rightarrow> bool" where
  "consistent d s \<longleftrightarrow>
     distinct (map fst (m_overlays s)) \<and> distinct (map snd (m_overlays s)) \<and>
     (\<forall>(k, a) \<in> set (m_overlays s).
        a < m_nextRef s \<and> ov_id (m_heap s a) = k \<and> ov_htmlContainer (m_heap s a) \<noteq> None \<and>
        ov_element (m_heap s a) \<noteq> None \<and> issued (m_ids s) k) \<and>
     (\<forall>k. container_overlays s k = filter (\<lambda>a. okey d s a = k) (map snd (m_overlays s)))"

text \<open>The manager after one overlay was added to the shape.\<close>

definition manager2 :: manager where
  "manager2 = snd (add diagram1 (ElemId ''shape1'') (TypeStr ''note'') (Some badge) manager1)"

subsection \<open>What one pass does to one overlay\<close>

text \<open>
  The effect of the body of the loop of \<open>_updateOverlayVisibilty\<close>, and of
  \<open>_updateOverlay\<close>, on an overlay object that has its wrapper.
\<close>

definition set_visibility :: "viewbox \<Rightarrow> overlay \<Rightarrow> overlay" where
  "set_visibility vb ov =
     (case ov_show ov of
        None \<Rightarrow> ov
      | Some sh \<Rightarrow>
          (case ov_htmlContainer ov of
             None \<Rightarrow> ov
           | Some w \<Rightarrow> ov\<lparr>ov_htmlContainer := Some (w\<lparr>w_shown := \<not> out_of_range sh vb\<rparr>)\<rparr>))"

definition reposition :: "diagram \<Rightarrow> overlay \<Rightarrow> overlay" where
  "reposition d ov =
     (case ov_htmlContainer ov of
        None \<Rightarrow> ov
      | Some w \<Rightarrow>
          ov\<lparr>ov_htmlContainer := Some
            (w\<lparr>w_left := Some (overlay_left d (ov_position ov) (d_elements d (the (ov_element ov)))),
               w_top := Some (overlay_top d (ov_position ov) (d_elements d (the (ov_element ov))))\<rparr>)\<rparr>)"

text \<open>Managers with one overlay that has a zoom range of its own.\<close>

definition zoom_note :: overlay_cfg where
  "zoom_note = \<lparr>cfg_position = Some \<lparr>pos_left = Some 0, pos_top = Some 0, pos_right = None,
                                       pos_bottom = None\<rparr>,
                cfg_html = Some (HtmlString ''<b>note</b>''),
                cfg_show = ShowObj \<lparr>sh_trigger = None, sh_minZoom = Some 1, sh_maxZoom = Some 2\<rparr>\<rparr>"

definition manager3 :: manager where
  "manager3 = snd (add diagram1 (ElemId ''shape1'') TypeNone (Some zoom_note) manager1)"

definition manual_note :: overlay_cfg where
  "manual_note = \<lparr>cfg_position = Some \<lparr>pos_left = Some 0, pos_top = Some 0, pos_right = None,
                                         pos_bottom = None\<rparr>,
                  cfg_html = Some (HtmlString ''<b>note</b>''),
                  cfg_show = ShowObj \<lparr>sh_trigger = Some ''manual'', sh_minZoom = Some 1,
                                      sh_maxZoom = Some 2\<rparr>\<rparr>"

definition manager4 :: manager where
  "manager4 = snd (add diagram1 (ElemId ''shape1'') TypeNone (Some manual_note) manager1)"

text \<open>The manager after three overlays were added to the shape.\<close>

definition manager5 :: manager where
  "manager5 =
     snd (add diagram1 (ElemObj 0) (TypeStr ''note'') (Some badge)
       (snd (add diagram1 (ElemId ''shape1'') (TypeStr ''badge'') (Some badge) manager2)))"

text \<open>
  The diagram after the shape was resized, and the manager after an overlay was added to
  the connection as well.
\<close>

definition diagram2 :: diagram where
  "diagram2 = diagram1\<lparr>d_elements := (\<lambda>r. if r = 0 then shape1\<lparr>el_width := 150, el_height := 60\<rparr>
                                            else connection1)\<rparr>"

definition manager6 :: manager where
  "manager6 = snd (add diagram1 (ElemObj 1) TypeNone (Some badge) manager2)"

subsection \<open>Bursts of viewbox changes\<close>

text \<open>
  In a burst that follows a viewbox change at time \<open>prev\<close>, every further viewbox
  change comes less than the debounce wait after the one before it, and a timer tick
  comes before the waiting call is due. \<open>last_event\<close> is the time and the viewbox of
  the last viewbox change; \<open>ticks\<close> holds of a list of timer ticks.

  An overlay is displayed only when the overlay root, its ancestor in the document, is
  displayed and its own wrapper is.
\<close>

fun quiet :: "nat \<Rightarrow> (nat \<times> diagram \<times> action) list \<Rightarrow> bool" where
  "quiet prev [] = True"
| "quiet prev ((t, d, ViewboxChanged vb) # xs) = (t < prev + debounce_wait \<and> quiet t xs)"
| "quiet prev ((t, d, TimerFired) # xs) = (t < prev + debounce_wait \<and> quiet prev xs)"
| "quiet prev (x # xs) = False"

fun last_event :: "nat \<times> viewbox \<Rightarrow> (nat \<times> diagram \<times> action) list \<Rightarrow> nat \<times> viewbox" where
  "last_event e [] = e"
| "last_event e ((t, d, ViewboxChanged vb) # xs) = last_event (t, vb) xs"
| "last_event e (x # xs) = last_event e xs"

fun ticks :: "(nat \<times> diagram \<times> action) list \<Rightarrow> bool" where
  "ticks [] = True"
| "ticks ((t, d, TimerFired) # xs) = ticks xs"
| "ticks (x # xs) = False"

definition overlay_visible :: "manager \<Rightarrow> oref \<Rightarrow> bool" where
  "overlay_visible s a =
     (m_rootShown s \<and> (case ov_htmlContainer (m_heap s a) of None \<Rightarrow> False | Some w \<Rightarrow> w_shown w))"

text \<open>Three viewboxes of one gesture.\<close>

definition viewbox_a :: viewbox where
  "viewbox_a = \<lparr>vb_x = 0, vb_y = 0, vb_scale = 1\<rparr>"

definition viewbox_b :: viewbox where
  "viewbox_b = \<lparr>vb_x = 5, vb_y = 0, vb_scale = 6 / 5\<rparr>"

definition viewbox_c :: viewbox where
  "viewbox_c = \<lparr>vb_x = 9, vb_y = 2, vb_scale = 3 / 2\<rparr>"

subsection \<open>Calls of add that throw after the checks\<close>



section \<open>Properties\<close>

subsection \<open>Property lookup\<close>

lemma lookup_Own: "(lookup m k = Own v) = (m k = Some v)"
  by (simp add: lookup_def split: option.splits)

lemma lookup_Inherited: "(lookup m k = Inherited) = (m k = None \<and> k \<in> set object_prototype_names)"
  by (simp add: lookup_def split: option.splits)

lemma lookup_Missing: "(lookup m k = Missing) = (m k = None \<and> k \<notin> set object_prototype_names)"
  by (simp add: lookup_def split: option.splits)

lemma lookup_Some: "m k = Some v \<Longrightarrow> lookup m k = Own v"
  by (simp add: lookup_def)

lemma lookup_None:
  "m k = None \<Longrightarrow> lookup m k = (if k \<in> set object_prototype_names then Inherited else Missing)"
  by (simp add: lookup_def)

subsection \<open>Ids\<close>

lemma dec_nonempty: "dec n \<noteq> []"
  by (subst dec.simps) simp

lemma digit_inj: "a < 10 \<Longrightarrow> b < 10 \<Longrightarrow> char_of (48 + a :: nat) = char_of (48 + b) \<Longrightarrow> a = b"
proof -
  assume a: "a < 10" and b: "b < 10" and "char_of (48 + a :: nat) = char_of (48 + b)"
  then have "(48 + a) mod 256 = (48 + b) mod 256"
    by (simp only: char_of_quasi_inj)
  with a b show "a = b" by simp
qed

lemma dec_inj: "dec m = dec n \<Longrightarrow> m = n"
proof (induction m arbitrary: n rule: dec.induct)
  case (1 m)
  show ?case
  proof (cases "m < 10")
    case True
    show ?thesis
    proof (cases "n < 10")
      case n: True
      from "1.prems" True n have "char_of (48 + m) = char_of (48 + n)"
        by (simp add: dec.simps [of m] dec.simps [of n])
      with True n show ?thesis by (simp add: digit_inj)
    next
      case False
      with "1.prems" True show ?thesis
        using dec_nonempty [of "n div 10"]
        by (simp add: dec.simps [of m] dec.simps [of n])
    qed
  next
    case False
    show ?thesis
    proof (cases "n < 10")
      case True
      with "1.prems" False show ?thesis
        using dec_nonempty [of "m div 10"]
        by (simp add: dec.simps [of m] dec.simps [of n])
    next
      case n: False
      from "1.prems" False n
      have e: "dec (m div 10) = dec (n div 10)"
        and c: "char_of (48 + m mod 10) = char_of (48 + n mod 10)"
        by (simp_all add: dec.simps [of m] dec.simps [of n])
      from "1.IH" [OF False e] have "m div 10 = n div 10" .
      moreover from c have "m mod 10 = n mod 10"
        by (intro digit_inj) simp_all
      ultimately show ?thesis
        by (metis div_mult_mod_eq)
    qed
  qed
qed

lemma dec_1: "dec (Suc 0) = ''1''"
  by code_simp

lemma dec_2: "dec (Suc (Suc 0)) = ''2''"
  by code_simp

lemma dec_3: "dec (Suc (Suc (Suc 0))) = ''3''"
  by code_simp

lemma update_fresh: "k \<notin> fst ` set al \<Longrightarrow> AList.update k v al = al @ [(k, v)]"
  by (induction al) auto

lemma issued_fresh: "issued g k \<Longrightarrow> k \<noteq> g_prefix g @ dec (Suc (g_counter g))"
  by (auto simp: issued_def dest: dec_inj)

lemma issued_mono:
  "issued g k \<Longrightarrow> issued (g\<lparr>g_counter := Suc (g_counter g)\<rparr>) k"
  by (auto simp: issued_def)

lemma issued_new: "issued (g\<lparr>g_counter := Suc (g_counter g)\<rparr>) (g_prefix g @ dec (Suc (g_counter g)))"
  by (auto simp: issued_def)

lemma issued_nonempty: "issued g k \<Longrightarrow> k \<noteq> []"
  by (auto simp: issued_def dec_nonempty)

lemma dec_last: "of_char (last (dec n)) = (48 + n mod 10 :: nat)"
  by (subst dec.simps) simp

lemma inherited_name_last:
  "k \<in> set object_prototype_names \<Longrightarrow> (of_char (last k) :: nat) \<ge> 95"
  by (auto simp: object_prototype_names_def)

lemma issued_not_inherited:
  assumes "issued g k"
  shows "k \<notin> set object_prototype_names"
proof
  assume k: "k \<in> set object_prototype_names"
  from assms obtain n where "k = g_prefix g @ dec n"
    by (auto simp: issued_def)
  then have "last k = last (dec n)"
    by (simp add: dec_nonempty)
  then have "(of_char (last k) :: nat) = 48 + n mod 10"
    by (simp add: dec_last)
  with inherited_name_last [OF k] show False
    by simp
qed

subsection \<open>The outcomes of add\<close>

lemma createOverlayContainer_overlays [simp]: "c_overlays (createOverlayContainer d r) = []"
  by (simp add: createOverlayContainer_def updateOverlayContainer_def Let_def)

lemma add_rejected:
  "add_rejects d element type overlay \<Longrightarrow> \<exists>e. add d element type overlay s = (Inl e, s)"
  by (auto simp: add_rejects_def add_def split: option.splits)

lemma add_accepted:
  assumes "\<not> add_rejects d element type overlay"
  obtains ob position r where "overlay_given type overlay = Some ob"
    "cfg_position ob = Some position" "\<not> falsy_html (cfg_html ob)"
    "resolve_element d element = Some r"
  using assms by (auto simp: add_rejects_def split: option.splits)

lemma add_result:
  fixes d s r type ob position
  defines "a \<equiv> m_nextRef s"
    and "k \<equiv> container_key d (Some (ElemObj r))"
    and "new_id \<equiv> g_prefix (m_ids s) @ dec (Suc (g_counter (m_ids s)))"
  defines "c \<equiv> (case m_overlayContainers s k of Some c \<Rightarrow> c | None \<Rightarrow> createOverlayContainer d r)"
  assumes "overlay_given type overlay = Some ob" "cfg_position ob = Some position"
    "\<not> falsy_html (cfg_html ob)" "resolve_element d element = Some r"
    "d_jQuery d (the (cfg_html ob)) = None"
    "lookup (m_overlayContainers s) (container_key d (Some (ElemObj r))) \<noteq> Inherited"
  shows "add d element type overlay s =
    (Inr new_id,
     s\<lparr>m_ids := (m_ids s)\<lparr>g_counter := Suc (g_counter (m_ids s))\<rparr>,
       m_heap := (m_heap s)(a :=
         \<lparr>ov_id = new_id, ov_type = type_given type, ov_element = Some r,
          ov_html = the (cfg_html ob), ov_position = position,
          ov_show = (case cfg_show ob of ShowAbsent \<Rightarrow> Some overlayDefaults
                     | ShowFalsy \<Rightarrow> None | ShowObj sh \<Rightarrow> Some sh),
          ov_htmlContainer = Some
            \<lparr>w_left = Some (overlay_left d position (d_elements d r)),
             w_top = Some (overlay_top d position (d_elements d r)),
             w_shown = True,
             w_classes = ''djs-overlay'' #
               (if truthy_str (type_given type) then [''djs-overlay-'' @ the (type_given type)]
                else [])\<rparr>\<rparr>),
       m_nextRef := Suc a,
       m_overlayContainers := (m_overlayContainers s)(k \<mapsto> c\<lparr>c_overlays := c_overlays c @ [a]\<rparr>),
       m_overlays := AList.update new_id a (m_overlays s)\<rparr>)"
proof (cases "m_overlayContainers s k")
  case None
  with assms(10) have "lookup (m_overlayContainers s) k = Missing"
    by (simp add: lookup_def k_def split: if_splits del: container_key.simps)
  with None show ?thesis
    using assms(5-9)
    apply (simp add: add_def next_id_def addOverlay_def getOverlayContainer_create_def
      updateOverlay_def Let_def a_def c_def k_def new_id_def del: container_key.simps
      split del: if_split)
    apply (rule manager.equality; simp del: container_key.simps)
    done
next
  case (Some c')
  then have "lookup (m_overlayContainers s) k = Own c'"
    by (rule lookup_Some)
  with Some show ?thesis
    using assms(5-9)
    apply (simp add: add_def next_id_def addOverlay_def getOverlayContainer_create_def
      updateOverlay_def Let_def a_def c_def k_def new_id_def del: container_key.simps
      split del: if_split)
    apply (rule manager.equality; simp del: container_key.simps)
    done
qed

lemma add_jQuery_throws:
  assumes "overlay_given type overlay = Some ob" "cfg_position ob = Some position"
    "\<not> falsy_html (cfg_html ob)" "resolve_element d element = Some r"
    "d_jQuery d (the (cfg_html ob)) = Some e"
  shows "add d element type overlay s =
    (Inl e, s\<lparr>m_ids := (m_ids s)\<lparr>g_counter := Suc (g_counter (m_ids s))\<rparr>\<rparr>)"
  using assms by (simp add: add_def next_id_def)

lemma add_push_throws:
  assumes "overlay_given type overlay = Some ob" "cfg_position ob = Some position"
    "\<not> falsy_html (cfg_html ob)" "resolve_element d element = Some r"
    "d_jQuery d (the (cfg_html ob)) = None"
    "lookup (m_overlayContainers s) (container_key d (Some (ElemObj r))) = Inherited"
  shows "add d element type overlay s =
    (Inl TypeError,
     s\<lparr>m_ids := (m_ids s)\<lparr>g_counter := Suc (g_counter (m_ids s))\<rparr>,
       m_heap := (m_heap s)(m_nextRef s :=
         \<lparr>ov_id = g_prefix (m_ids s) @ dec (Suc (g_counter (m_ids s))),
          ov_type = type_given type, ov_element = Some r,
          ov_html = the (cfg_html ob), ov_position = position,
          ov_show = (case cfg_show ob of ShowAbsent \<Rightarrow> Some overlayDefaults
                     | ShowFalsy \<Rightarrow> None | ShowObj sh \<Rightarrow> Some sh),
          ov_htmlContainer = Some
            \<lparr>w_left = None, w_top = None, w_shown = True,
             w_classes = ''djs-overlay'' #
               (if truthy_str (type_given type) then [''djs-overlay-'' @ the (type_given type)]
                else [])\<rparr>\<rparr>),
       m_nextRef := Suc (m_nextRef s)\<rparr>)"
  using assms
  apply (simp add: add_def next_id_def addOverlay_def getOverlayContainer_create_def Let_def
      del: container_key.simps split del: if_split)
  apply (rule manager.equality; simp)
  done

subsection \<open>Validation in add\<close>




subsection \<open>add keeps the manager consistent\<close>

lemma consistent_cong:
  assumes "consistent d s"
    and "m_overlays s' = m_overlays s" "m_overlayContainers s' = m_overlayContainers s"
    and "m_nextRef s \<le> m_nextRef s'"
    and "\<And>b. b < m_nextRef s \<Longrightarrow> m_heap s' b = m_heap s b"
    and "\<And>k. issued (m_ids s) k \<Longrightarrow> issued (m_ids s') k"
  shows "consistent d s'"
proof -
  from assms(1) have d1: "distinct (map fst (m_overlays s))" and d2: "distinct (map snd (m_overlays s))"
    and ent: "\<And>k' b. (k', b) \<in> set (m_overlays s) \<Longrightarrow>
        b < m_nextRef s \<and> ov_id (m_heap s b) = k' \<and> ov_htmlContainer (m_heap s b) \<noteq> None \<and>
        ov_element (m_heap s b) \<noteq> None \<and> issued (m_ids s) k'"
    and con: "\<And>k'. container_overlays s k' = filter (\<lambda>b. okey d s b = k') (map snd (m_overlays s))"
    by (auto simp: consistent_def)
  have "\<forall>(k', b) \<in> set (m_overlays s').
        b < m_nextRef s' \<and> ov_id (m_heap s' b) = k' \<and> ov_htmlContainer (m_heap s' b) \<noteq> None \<and>
        ov_element (m_heap s' b) \<noteq> None \<and> issued (m_ids s') k'"
  proof clarify
    fix k' b assume "(k', b) \<in> set (m_overlays s')"
    then have m: "(k', b) \<in> set (m_overlays s)"
      by (simp add: assms(2))
    from ent [OF m] assms(4) assms(5) [of b] assms(6) [of k']
    show "b < m_nextRef s' \<and> ov_id (m_heap s' b) = k' \<and> ov_htmlContainer (m_heap s' b) \<noteq> None \<and>
        ov_element (m_heap s' b) \<noteq> None \<and> issued (m_ids s') k'"
      by simp
  qed
  moreover have "\<forall>k'. container_overlays s' k' = filter (\<lambda>b. okey d s' b = k') (map snd (m_overlays s'))"
  proof
    fix k'
    have "filter (\<lambda>b. okey d s' b = k') (map snd (m_overlays s))
        = filter (\<lambda>b. okey d s b = k') (map snd (m_overlays s))"
    proof (rule filter_cong [OF refl])
      fix b assume "b \<in> set (map snd (m_overlays s))"
      then obtain k where "(k, b) \<in> set (m_overlays s)"
        by auto
      from ent [OF this] have "b < m_nextRef s"
        by simp
      then show "(okey d s' b = k') = (okey d s b = k')"
        by (simp add: okey_def assms(5))
    qed
    moreover have "container_overlays s' k' = container_overlays s k'"
      by (simp add: container_overlays_def assms(3))
    ultimately show "container_overlays s' k' = filter (\<lambda>b. okey d s' b = k') (map snd (m_overlays s'))"
      using con [of k'] by (simp add: assms(2))
  qed
  ultimately show ?thesis
    using d1 d2 unfolding consistent_def assms(2) by blast
qed

lemma consistent_add:
  assumes "consistent d s"
  shows "consistent d (snd (add d element type overlay s))"
proof (cases "add_rejects d element type overlay")
  case True
  with add_rejected [OF True, of s] assms show ?thesis by auto
next
  case False
  then obtain ob position r where *: "overlay_given type overlay = Some ob"
    "cfg_position ob = Some position" "\<not> falsy_html (cfg_html ob)"
    "resolve_element d element = Some r"
    by (rule add_accepted)
  define a where "a = m_nextRef s"
  define k where "k = container_key d (Some (ElemObj r))"
  define new_id where "new_id = g_prefix (m_ids s) @ dec (Suc (g_counter (m_ids s)))"
  define c where "c = (case m_overlayContainers s k of Some c \<Rightarrow> c | None \<Rightarrow> createOverlayContainer d r)"
  define s' where "s' = snd (add d element type overlay s)"
  show ?thesis
  proof (cases "d_jQuery d (the (cfg_html ob))")
    case (Some e)
    show ?thesis
      unfolding add_jQuery_throws [OF * Some] snd_conv
      by (rule consistent_cong [OF assms]) (simp_all add: issued_mono)
  next
    case None
    show ?thesis
    proof (cases "lookup (m_overlayContainers s) (container_key d (Some (ElemObj r))) = Inherited")
      case True
      show ?thesis
        unfolding add_push_throws [OF * None True] snd_conv
        by (rule consistent_cong [OF assms]) (simp_all add: issued_mono)
    next
      case ok: False
  note res = add_result [OF * None ok, folded a_def k_def new_id_def c_def]
  have ov: "m_overlays s' = AList.update new_id a (m_overlays s)"
    and ids: "m_ids s' = (m_ids s)\<lparr>g_counter := Suc (g_counter (m_ids s))\<rparr>"
    and nr: "m_nextRef s' = Suc a"
    and cs: "m_overlayContainers s' = (m_overlayContainers s)(k \<mapsto> c\<lparr>c_overlays := c_overlays c @ [a]\<rparr>)"
    and hp_old: "\<And>b. b \<noteq> a \<Longrightarrow> m_heap s' b = m_heap s b"
    and hp_new: "ov_id (m_heap s' a) = new_id" "ov_element (m_heap s' a) = Some r"
      "ov_htmlContainer (m_heap s' a) \<noteq> None"
    by (simp_all add: s'_def res c_def)
  from assms have d1: "distinct (map fst (m_overlays s))" and d2: "distinct (map snd (m_overlays s))"
    and ent: "\<And>k' b. (k', b) \<in> set (m_overlays s) \<Longrightarrow>
        b < a \<and> ov_id (m_heap s b) = k' \<and> ov_htmlContainer (m_heap s b) \<noteq> None \<and>
        ov_element (m_heap s b) \<noteq> None \<and> issued (m_ids s) k'"
    and con: "\<And>k'. container_overlays s k' = filter (\<lambda>b. okey d s b = k') (map snd (m_overlays s))"
    by (auto simp: consistent_def a_def)
  have fresh: "new_id \<notin> fst ` set (m_overlays s)"
    using ent issued_fresh [of "m_ids s"] by (fastforce simp: new_id_def)
  have afresh: "a \<notin> snd ` set (m_overlays s)"
    using ent by fastforce
  have ov': "m_overlays s' = m_overlays s @ [(new_id, a)]"
    using fresh by (simp add: ov update_fresh)
  have okey_old: "\<And>b. b \<in> snd ` set (m_overlays s) \<Longrightarrow> okey d s' b = okey d s b"
  proof -
    fix b assume "b \<in> snd ` set (m_overlays s)"
    with afresh have "b \<noteq> a" by auto
    then show "okey d s' b = okey d s b" by (simp add: okey_def hp_old)
  qed
  have okey_new: "okey d s' a = k"
    by (simp add: okey_def hp_new k_def)
  have cc: "c_overlays c = container_overlays s k"
    by (simp add: c_def container_overlays_def split: option.splits)
  have "distinct (map fst (m_overlays s'))"
    using d1 fresh by (simp add: ov')
  moreover have "distinct (map snd (m_overlays s'))"
    using d2 afresh by (simp add: ov')
  moreover have "\<forall>(k', b) \<in> set (m_overlays s').
        b < m_nextRef s' \<and> ov_id (m_heap s' b) = k' \<and> ov_htmlContainer (m_heap s' b) \<noteq> None \<and>
        ov_element (m_heap s' b) \<noteq> None \<and> issued (m_ids s') k'"
  proof (clarify)
    fix k' b assume "(k', b) \<in> set (m_overlays s')"
    then consider "(k', b) \<in> set (m_overlays s)" | "k' = new_id" "b = a"
      by (auto simp: ov')
    then show "b < m_nextRef s' \<and> ov_id (m_heap s' b) = k' \<and> ov_htmlContainer (m_heap s' b) \<noteq> None \<and>
        ov_element (m_heap s' b) \<noteq> None \<and> issued (m_ids s') k'"
    proof cases
      case 1
      with ent [OF 1] show ?thesis
        using hp_old [of b] by (simp add: nr ids issued_mono)
    next
      case 2
      then show ?thesis
        using hp_new by (simp add: nr ids new_id_def issued_new)
    qed
  qed
  moreover have "\<forall>k'. container_overlays s' k' = filter (\<lambda>b. okey d s' b = k') (map snd (m_overlays s'))"
  proof
    fix k'
    have "filter (\<lambda>b. okey d s' b = k') (map snd (m_overlays s))
        = filter (\<lambda>b. okey d s b = k') (map snd (m_overlays s))"
      by (rule filter_cong) (auto simp: okey_old)
    then show "container_overlays s' k' = filter (\<lambda>b. okey d s' b = k') (map snd (m_overlays s'))"
      using con [of k'] cc
      by (auto simp: ov' okey_new container_overlays_def cs)
  qed
  ultimately show ?thesis
    unfolding consistent_def s'_def by blast
qed
  qed
qed

subsection \<open>remove keeps the manager consistent\<close>

lemma delete_by_ref:
  assumes "distinct (map fst al)" "distinct (map snd al)" "(k, a) \<in> set al"
  shows "AList.delete k al = filter (\<lambda>p. snd p \<noteq> a) al"
proof -
  have "\<And>p. p \<in> set al \<Longrightarrow> (fst p \<noteq> k) = (snd p \<noteq> a)"
  proof -
    fix p assume p: "p \<in> set al"
    obtain k' b where [simp]: "p = (k', b)" by (cases p)
    from assms(1,3) p have "k' = k \<Longrightarrow> b = a"
      by (metis \<open>p = (k', b)\<close> eq_key_imp_eq_value)
    moreover from assms(2,3) p have "b = a \<Longrightarrow> k' = k"
      by (metis (no_types, lifting) \<open>p = (k', b)\<close> distinct_map inj_on_def snd_conv fst_conv)
    ultimately show "(fst p \<noteq> k) = (snd p \<noteq> a)" by auto
  qed
  then show ?thesis
    unfolding AList.delete_eq
    by (intro filter_cong) (force split: prod.splits)+
qed

lemma map_snd_filter_ref: "map snd (filter (\<lambda>p. snd p \<noteq> a) al) = filter (\<lambda>b. b \<noteq> a) (map snd al)"
  by (induction al) auto

lemma remove_overlay_consistent:
  assumes c: "consistent d s" and m: "(k, a) \<in> set (m_overlays s)"
  obtains s' where "remove_overlay d a s = (None, s')" "consistent d s'"
    "m_overlays s' = filter (\<lambda>p. snd p \<noteq> a) (m_overlays s)"
    "m_ids s' = m_ids s" "m_nextRef s' = m_nextRef s" "m_rootShown s' = m_rootShown s"
    "m_pending s' = m_pending s" "m_passes s' = m_passes s" "m_deferUpdate s' = m_deferUpdate s"
    "\<And>b. b \<noteq> a \<Longrightarrow> m_heap s' b = m_heap s b"
    "\<And>k'. (m_overlayContainers s' k' = None) = (m_overlayContainers s k' = None)"
proof -
  from c have d1: "distinct (map fst (m_overlays s))" and d2: "distinct (map snd (m_overlays s))"
    and ent: "\<And>k' b. (k', b) \<in> set (m_overlays s) \<Longrightarrow>
        b < m_nextRef s \<and> ov_id (m_heap s b) = k' \<and> ov_htmlContainer (m_heap s b) \<noteq> None \<and>
        ov_element (m_heap s b) \<noteq> None \<and> issued (m_ids s) k'"
    and con: "\<And>k'. container_overlays s k' = filter (\<lambda>b. okey d s b = k') (map snd (m_overlays s))"
    by (auto simp: consistent_def)
  define ov where "ov = m_heap s a"
  define kk where "kk = okey d s a"
  from ent [OF m] obtain w where ovid: "ov_id ov = k" and w: "ov_htmlContainer ov = Some w"
    by (auto simp: ov_def)
  have ain: "a \<in> set (map snd (m_overlays s))"
    using m by force
  then have "a \<in> set (container_overlays s kk)"
    by (simp add: con kk_def)
  then obtain cc where cc: "m_overlayContainers s kk = Some cc" and acc: "a \<in> set (c_overlays cc)"
    by (cases "m_overlayContainers s kk") (auto simp: container_overlays_def)
  define s' where "s' = s\<lparr>m_heap := (m_heap s)(a := ov\<lparr>ov_htmlContainer := None, ov_element := None\<rparr>),
      m_overlays := AList.delete k (m_overlays s),
      m_overlayContainers := (m_overlayContainers s)(kk \<mapsto> cc\<lparr>c_overlays := remove1 a (c_overlays cc)\<rparr>)\<rparr>"
  have lcc: "lookup (m_overlayContainers s) kk = Own cc"
    using cc by (rule lookup_Some)
  have kk: "container_key d (map_option ElemObj (ov_element ov)) = kk"
    by (simp add: kk_def okey_def ov_def)
  have res: "remove_overlay d a s = (None, s')"
    using w acc ovid
    by (simp add: remove_overlay_def Let_def ov_def [symmetric] kk lcc s'_def)
  have ov': "m_overlays s' = filter (\<lambda>p. snd p \<noteq> a) (m_overlays s)"
    by (simp add: s'_def delete_by_ref [OF d1 d2 m])
  have okey': "\<And>b. b \<noteq> a \<Longrightarrow> okey d s' b = okey d s b"
    by (simp add: okey_def s'_def)
  have "distinct (map fst (m_overlays s'))"
    using d1 by (simp add: s'_def distinct_delete)
  moreover have "distinct (map snd (m_overlays s'))"
    using d2 by (simp add: ov' map_snd_filter_ref)
  moreover have "\<forall>(k', b) \<in> set (m_overlays s').
        b < m_nextRef s' \<and> ov_id (m_heap s' b) = k' \<and> ov_htmlContainer (m_heap s' b) \<noteq> None \<and>
        ov_element (m_heap s' b) \<noteq> None \<and> issued (m_ids s') k'"
  proof clarify
    fix k' b assume "(k', b) \<in> set (m_overlays s')"
    then have "(k', b) \<in> set (m_overlays s)" "b \<noteq> a"
      by (auto simp: ov')
    with ent [of k' b]
    show "b < m_nextRef s' \<and> ov_id (m_heap s' b) = k' \<and> ov_htmlContainer (m_heap s' b) \<noteq> None \<and>
        ov_element (m_heap s' b) \<noteq> None \<and> issued (m_ids s') k'"
      by (simp add: s'_def)
  qed
  moreover have "\<forall>k'. container_overlays s' k' = filter (\<lambda>b. okey d s' b = k') (map snd (m_overlays s'))"
  proof
    fix k'
    have f: "filter (\<lambda>b. okey d s' b = k') (map snd (m_overlays s'))
           = filter (\<lambda>b. okey d s b = k' \<and> b \<noteq> a) (map snd (m_overlays s))"
      unfolding ov' map_snd_filter_ref filter_filter
      by (rule filter_cong) (auto simp: okey')
    show "container_overlays s' k' = filter (\<lambda>b. okey d s' b = k') (map snd (m_overlays s'))"
    proof (cases "k' = kk")
      case True
      have cov: "c_overlays cc = filter (\<lambda>b. okey d s b = kk) (map snd (m_overlays s))"
        using con [of kk] cc by (simp add: container_overlays_def)
      then have "distinct (c_overlays cc)"
        using d2 by simp
      then have "remove1 a (c_overlays cc) = filter (\<lambda>b. b \<noteq> a) (c_overlays cc)"
        by (simp add: distinct_remove1_removeAll removeAll_filter_not_eq) metis
      then have r: "remove1 a (c_overlays cc)
          = filter (\<lambda>b. okey d s b = kk \<and> b \<noteq> a) (map snd (m_overlays s))"
        by (simp add: cov conj_commute)
      have "container_overlays s' kk = remove1 a (c_overlays cc)"
        by (simp add: container_overlays_def s'_def)
      with r f True show ?thesis by simp
    next
      case False
      have "filter (\<lambda>b. okey d s b = k' \<and> b \<noteq> a) (map snd (m_overlays s))
          = filter (\<lambda>b. okey d s b = k') (map snd (m_overlays s))"
        by (rule filter_cong) (use False kk_def in auto)
      moreover have "container_overlays s' k' = container_overlays s k'"
        using False by (simp add: container_overlays_def s'_def)
      ultimately show ?thesis
        using con [of k'] f by simp
    qed
  qed
  ultimately have "consistent d s'"
    unfolding consistent_def by blast
  moreover have "\<And>k'. (m_overlayContainers s' k' = None) = (m_overlayContainers s k' = None)"
    using cc by (simp add: s'_def)
  ultimately show thesis
    using res ov' by (intro that [of s']) (simp_all add: s'_def)
qed

lemma consistent_lookup:
  assumes "consistent d s" "(k, a) \<in> set (m_overlays s)"
  shows "map_of (m_overlays s) k = Some a" "k \<noteq> []" "ov_id (m_heap s a) = k"
    "lookup (map_of (m_overlays s)) k = Own a"
proof -
  show m: "map_of (m_overlays s) k = Some a" and "k \<noteq> []" and "ov_id (m_heap s a) = k"
    using assms by (auto simp: consistent_def dest: issued_nonempty)
  from m show "lookup (map_of (m_overlays s)) k = Own a"
    by (rule lookup_Some)
qed

lemma consistent_container_refs:
  assumes "consistent d s"
  shows "set (container_overlays s k) \<subseteq> snd ` set (m_overlays s)"
    and "distinct (container_overlays s k)"
  using assms by (auto simp: consistent_def)

lemma get_by_id:
  "get d (SearchString oid) s =
     (if oid = [] then Null
      else case lookup (map_of (m_overlays s)) oid of
             Own a \<Rightarrow> One a | Inherited \<Rightarrow> Member | Missing \<Rightarrow> Undefined)"
  by (simp add: get.simps get_search_def truthy_elem_def truthy_str_def)

lemma refs_after_filter:
  assumes "set as \<subseteq> snd ` set al" "a \<notin> set as"
  shows "set as \<subseteq> snd ` set (filter (\<lambda>p. snd p \<noteq> a) al)"
proof
  fix b assume b: "b \<in> set as"
  with assms(1) obtain p where "p \<in> set al" "snd p = b" by auto
  moreover from b assms(2) have "b \<noteq> a" by auto
  ultimately show "b \<in> snd ` set (filter (\<lambda>p. snd p \<noteq> a) al)" by force
qed

lemma remove_ids_each_consistent:
  assumes "consistent d s" "set as \<subseteq> snd ` set (m_overlays s)" "distinct as"
  shows "\<exists>s'. remove_ids_each d as s = (None, s') \<and> consistent d s' \<and>
    m_overlays s' = filter (\<lambda>p. snd p \<notin> set as) (m_overlays s) \<and>
    m_ids s' = m_ids s \<and> m_nextRef s' = m_nextRef s \<and> m_rootShown s' = m_rootShown s \<and>
    m_pending s' = m_pending s \<and> m_passes s' = m_passes s \<and> m_deferUpdate s' = m_deferUpdate s \<and>
    (\<forall>b. b \<notin> set as \<longrightarrow> m_heap s' b = m_heap s b) \<and>
    (\<forall>k'. (m_overlayContainers s' k' = None) = (m_overlayContainers s k' = None))"
  using assms
proof (induction as arbitrary: s)
  case Nil
  then show ?case by simp
next
  case (Cons a as)
  from Cons.prems obtain k where m: "(k, a) \<in> set (m_overlays s)"
    by auto
  note l = consistent_lookup [OF Cons.prems(1) m]
  show ?case
  proof (rule remove_overlay_consistent [OF Cons.prems(1) m])
    fix s1
    assume s1: "remove_overlay d a s = (None, s1)" "consistent d s1"
      "m_overlays s1 = filter (\<lambda>p. snd p \<noteq> a) (m_overlays s)"
      "m_ids s1 = m_ids s" "m_nextRef s1 = m_nextRef s" "m_rootShown s1 = m_rootShown s"
      "m_pending s1 = m_pending s" "m_passes s1 = m_passes s" "m_deferUpdate s1 = m_deferUpdate s"
      "\<And>b. b \<noteq> a \<Longrightarrow> m_heap s1 b = m_heap s b"
      "\<And>k'. (m_overlayContainers s1 k' = None) = (m_overlayContainers s k' = None)"
    have step: "remove d (SearchString (ov_id (m_heap s a))) s = (None, s1)"
      using l s1(1) by (simp add: remove_def get_by_id)
    have sub: "set as \<subseteq> snd ` set (m_overlays s1)"
      unfolding s1(3) using Cons.prems(2,3) by (intro refs_after_filter) simp_all
    have dis: "distinct as"
      using Cons.prems(3) by simp
    from Cons.IH [OF s1(2) sub dis]
    obtain s' where s': "remove_ids_each d as s1 = (None, s') \<and> consistent d s' \<and>
      m_overlays s' = filter (\<lambda>p. snd p \<notin> set as) (m_overlays s1) \<and>
      m_ids s' = m_ids s1 \<and> m_nextRef s' = m_nextRef s1 \<and> m_rootShown s' = m_rootShown s1 \<and>
      m_pending s' = m_pending s1 \<and> m_passes s' = m_passes s1 \<and>
      m_deferUpdate s' = m_deferUpdate s1 \<and>
      (\<forall>b. b \<notin> set as \<longrightarrow> m_heap s' b = m_heap s1 b) \<and>
      (\<forall>k'. (m_overlayContainers s' k' = None) = (m_overlayContainers s1 k' = None))" ..
    have "filter (\<lambda>p. snd p \<notin> set as) (m_overlays s1)
        = filter (\<lambda>p. snd p \<notin> set (a # as)) (m_overlays s)"
      unfolding s1(3) filter_filter by (rule filter_cong) auto
    then show ?case
      using step s' s1 by simp
  qed
qed

lemma remove_each_consistent:
  assumes "consistent d s" "set as \<subseteq> snd ` set (m_overlays s)" "distinct as"
  shows "\<exists>s'. remove_each d as s = (None, s') \<and> consistent d s' \<and>
    m_overlays s' = filter (\<lambda>p. snd p \<notin> set as) (m_overlays s) \<and>
    m_ids s' = m_ids s \<and> m_nextRef s' = m_nextRef s \<and> m_rootShown s' = m_rootShown s \<and>
    m_pending s' = m_pending s \<and> m_passes s' = m_passes s \<and> m_deferUpdate s' = m_deferUpdate s \<and>
    (\<forall>b. b \<notin> set as \<longrightarrow> m_heap s' b = m_heap s b) \<and>
    (\<forall>k'. (m_overlayContainers s' k' = None) = (m_overlayContainers s k' = None))"
  using assms
proof (induction as arbitrary: s)
  case Nil
  then show ?case by simp
next
  case (Cons a as)
  from Cons.prems obtain k where m: "(k, a) \<in> set (m_overlays s)"
    by auto
  note l = consistent_lookup [OF Cons.prems(1) m]
  show ?case
  proof (rule remove_overlay_consistent [OF Cons.prems(1) m])
    fix s1
    assume s1: "remove_overlay d a s = (None, s1)" "consistent d s1"
      "m_overlays s1 = filter (\<lambda>p. snd p \<noteq> a) (m_overlays s)"
      "m_ids s1 = m_ids s" "m_nextRef s1 = m_nextRef s" "m_rootShown s1 = m_rootShown s"
      "m_pending s1 = m_pending s" "m_passes s1 = m_passes s" "m_deferUpdate s1 = m_deferUpdate s"
      "\<And>b. b \<noteq> a \<Longrightarrow> m_heap s1 b = m_heap s b"
      "\<And>k'. (m_overlayContainers s1 k' = None) = (m_overlayContainers s k' = None)"
    have sub: "set as \<subseteq> snd ` set (m_overlays s1)"
      unfolding s1(3) using Cons.prems(2,3) by (intro refs_after_filter) simp_all
    have dis: "distinct as"
      using Cons.prems(3) by simp
    from Cons.IH [OF s1(2) sub dis]
    obtain s' where s': "remove_each d as s1 = (None, s') \<and> consistent d s' \<and>
      m_overlays s' = filter (\<lambda>p. snd p \<notin> set as) (m_overlays s1) \<and>
      m_ids s' = m_ids s1 \<and> m_nextRef s' = m_nextRef s1 \<and> m_rootShown s' = m_rootShown s1 \<and>
      m_pending s' = m_pending s1 \<and> m_passes s' = m_passes s1 \<and>
      m_deferUpdate s' = m_deferUpdate s1 \<and>
      (\<forall>b. b \<notin> set as \<longrightarrow> m_heap s' b = m_heap s1 b) \<and>
      (\<forall>k'. (m_overlayContainers s' k' = None) = (m_overlayContainers s1 k' = None))" ..
    have "filter (\<lambda>p. snd p \<notin> set as) (m_overlays s1)
        = filter (\<lambda>p. snd p \<notin> set (a # as)) (m_overlays s)"
      unfolding s1(3) filter_filter by (rule filter_cong) auto
    then show ?case
      using s' s1 by simp
  qed
qed

lemma consistent_Overlays: "consistent d (Overlays cfg ids)"
  by (simp add: consistent_def Overlays_def container_overlays_def)

lemma consistent_absent:
  assumes "consistent d s" "a \<notin> snd ` set (m_overlays s)"
  shows "a \<notin> set (container_overlays s k)"
  using consistent_container_refs(1) [OF assms(1), of k] assms(2) by auto

subsection \<open>remove by id\<close>

lemma remove_existing_id:
  assumes "consistent d s" "map_of (m_overlays s) oid = Some a"
  shows "\<exists>s'. remove d (SearchString oid) s = (None, s') \<and>
               falsy_result (get d (SearchString oid) s') \<and>
               (\<forall>k. a \<notin> set (container_overlays s' k)) \<and>
               remove d (SearchString oid) s' = (None, s')"
proof -
  from assms(2) have m: "(oid, a) \<in> set (m_overlays s)"
    by (rule map_of_SomeD)
  note l = consistent_lookup [OF assms(1) m]
  show ?thesis
  proof (rule remove_overlay_consistent [OF assms(1) m])
    fix s'
    assume s': "remove_overlay d a s = (None, s')" "consistent d s'"
      "m_overlays s' = filter (\<lambda>p. snd p \<noteq> a) (m_overlays s)"
    have r: "remove d (SearchString oid) s = (None, s')"
      using l s'(1) by (simp add: remove_def get_by_id)
    have na: "a \<notin> snd ` set (m_overlays s')"
      by (auto simp: s'(3))
    have "oid \<notin> fst ` set (m_overlays s')"
    proof
      assume "oid \<in> fst ` set (m_overlays s')"
      then obtain b where b: "(oid, b) \<in> set (m_overlays s)" "b \<noteq> a"
        by (auto simp: s'(3))
      from consistent_lookup(1) [OF assms(1) b(1)] assms(2) b(2) show False by simp
    qed
    then have gone: "map_of (m_overlays s') oid = None"
      by (simp add: map_of_eq_None_iff)
    have "issued (m_ids s) oid"
      using assms(1) m by (auto simp: consistent_def)
    then have n: "oid \<notin> set object_prototype_names"
      by (rule issued_not_inherited)
    have g: "falsy_result (get d (SearchString oid) s')"
      using gone n by (simp add: get_by_id falsy_result_def lookup_def)
    have c: "\<forall>k. a \<notin> set (container_overlays s' k)"
      using consistent_absent [OF s'(2) na] by simp
    have i: "remove d (SearchString oid) s' = (None, s')"
      using gone n by (simp add: remove_def get_by_id lookup_def)
    from r g c i show ?thesis
      by (intro exI [of _ s'] conjI)
  qed
qed

lemma remove_missing_id:
  assumes "map_of (m_overlays s) oid = None" "oid \<notin> set object_prototype_names"
  shows "remove d (SearchString oid) s = (None, s)"
  using assms by (simp add: remove_def get_by_id lookup_def)

lemma remove_prototype_member:
  assumes "map_of (m_overlays s) oid = None" "oid \<in> set object_prototype_names"
  shows "get d (SearchString oid) s = Member" "remove d (SearchString oid) s = (Some TypeError, s)"
  using assms by (auto simp: remove_def get_by_id lookup_def object_prototype_names_def)

subsection \<open>A manager with one overlay\<close>

lemma manager2_overlays: "m_overlays manager2 = [(''ov-1'', 0)]"
  by (simp add: manager2_def add_result overlay_given_def badge_def falsy_html_def
      resolve_element_def diagram1_def shape1_def manager1_def Overlays_def ids1_def dec_1
      lookup_def object_prototype_names_def)

lemma manager2_facts:
  "ov_type (m_heap manager2 0) = Some ''note''"
  "ov_element (m_heap manager2 0) = Some 0"
  by (simp_all add: manager2_def add_result overlay_given_def badge_def falsy_html_def
      resolve_element_def diagram1_def shape1_def manager1_def Overlays_def ids1_def type_given_def
      lookup_def object_prototype_names_def)

lemma consistent_manager2: "consistent diagram1 manager2"
  unfolding manager2_def manager1_def by (intro consistent_add consistent_Overlays)

text \<open>
  Claim C6 says that \<open>remove\<close> of an id that is not in the id map is a no-op. In the
  manager that holds the one overlay \<open>ov-1\<close>, the id \<open>constructor\<close> is not in
  the id map, yet \<open>get\<close> returns a member of \<open>Object.prototype\<close> for it and
  \<open>remove\<close> throws a TypeError, where for the absent id \<open>ov-2\<close> it returns
  and leaves the manager as it was.
\<close>

theorem remove_inherited_name_throws:
  "map_of (m_overlays manager2) ''constructor'' = None \<and>
   get diagram1 (SearchString ''constructor'') manager2 = Member \<and>
   remove diagram1 (SearchString ''constructor'') manager2 = (Some TypeError, manager2) \<and>
   map_of (m_overlays manager2) ''ov-2'' = None \<and>
   remove diagram1 (SearchString ''ov-2'') manager2 = (None, manager2)"
proof -
  have 1: "map_of (m_overlays manager2) ''constructor'' = None"
    "map_of (m_overlays manager2) ''ov-2'' = None"
    by (simp_all add: manager2_overlays)
  have 2: "''constructor'' \<in> set object_prototype_names" "''ov-2'' \<notin> set object_prototype_names"
    by (simp_all add: object_prototype_names_def)
  from 1 remove_prototype_member [OF 1(1) 2(1)] remove_missing_id [OF 1(2) 2(2)]
  show ?thesis by (intro conjI)
qed

subsection \<open>Removal of an element\<close>

text \<open>
  Claim C7. In a consistent manager, the handler of \<open>shape.remove\<close> and
  \<open>connection.remove\<close> for the element \<open>r\<close> returns normally; afterwards the id map
  holds exactly the overlays that were not attached to \<open>r\<close> (their element did not have
  the container key of \<open>r\<close>), the container of \<open>r\<close> has no overlays, and every overlay
  whose element was \<open>r\<close> is gone from the id map and from every container.
\<close>

theorem element_remove_removes_overlays:
  assumes "consistent d s"
  shows "\<exists>s'. on_element_remove d r s = (None, s') \<and>
     m_overlays s' =
       filter (\<lambda>p. okey d s (snd p) \<noteq> container_key d (Some (ElemObj r))) (m_overlays s) \<and>
     container_overlays s' (container_key d (Some (ElemObj r))) = [] \<and>
     (\<forall>(k, a) \<in> set (m_overlays s). ov_element (m_heap s a) = Some r \<longrightarrow>
        map_of (m_overlays s') k = None \<and> (\<forall>k'. a \<notin> set (container_overlays s' k')))"
proof -
  define key where "key = container_key d (Some (ElemObj r))"
  define as where "as = container_overlays s key"
  have as: "as = filter (\<lambda>b. okey d s b = key) (map snd (m_overlays s))"
    using assms by (simp add: as_def consistent_def)
  have run: "on_element_remove d r s = remove_ids_each d as s"
    by (cases "m_overlayContainers s key")
      (simp_all add: on_element_remove_def get.simps get_search_def truthy_elem_def
        truthy_str_def getOverlayContainer_def as_def container_overlays_def key_def lookup_def
        del: container_key.simps)
  have "set as \<subseteq> snd ` set (m_overlays s)" "distinct as"
    unfolding as_def by (rule consistent_container_refs [OF assms])+
  from remove_ids_each_consistent [OF assms this]
  obtain s' where "remove_ids_each d as s = (None, s') \<and> consistent d s' \<and>
    m_overlays s' = filter (\<lambda>p. snd p \<notin> set as) (m_overlays s) \<and>
    m_ids s' = m_ids s \<and> m_nextRef s' = m_nextRef s \<and> m_rootShown s' = m_rootShown s \<and>
    m_pending s' = m_pending s \<and> m_passes s' = m_passes s \<and> m_deferUpdate s' = m_deferUpdate s \<and>
    (\<forall>b. b \<notin> set as \<longrightarrow> m_heap s' b = m_heap s b) \<and>
    (\<forall>k'. (m_overlayContainers s' k' = None) = (m_overlayContainers s k' = None))" ..
  then have s': "remove_ids_each d as s = (None, s')" "consistent d s'"
    "m_overlays s' = filter (\<lambda>p. snd p \<notin> set as) (m_overlays s)"
    "\<forall>b. b \<notin> set as \<longrightarrow> m_heap s' b = m_heap s b"
    by simp_all
  have ov: "m_overlays s' = filter (\<lambda>p. okey d s (snd p) \<noteq> key) (m_overlays s)"
    unfolding s'(3) by (rule filter_cong) (auto simp: as)
  have "container_overlays s' key = filter (\<lambda>b. okey d s' b = key) (map snd (m_overlays s'))"
    using s'(2) by (simp add: consistent_def)
  also have "\<dots> = []"
  proof -
    have "\<And>b. b \<in> set (map snd (m_overlays s')) \<Longrightarrow> okey d s' b \<noteq> key"
    proof -
      fix b assume "b \<in> set (map snd (m_overlays s'))"
      then have n: "okey d s b \<noteq> key" and "b \<in> set (map snd (m_overlays s))"
        by (auto simp: ov)
      then have "b \<notin> set as" by (simp add: as)
      with s'(4) have "okey d s' b = okey d s b" by (simp add: okey_def)
      with n show "okey d s' b \<noteq> key" by simp
    qed
    then show ?thesis by (simp add: filter_empty_conv)
  qed
  finally have empty: "container_overlays s' key = []" .
  have "\<forall>(k, a) \<in> set (m_overlays s). ov_element (m_heap s a) = Some r \<longrightarrow>
        map_of (m_overlays s') k = None \<and> (\<forall>k'. a \<notin> set (container_overlays s' k'))"
  proof clarify
    fix k a assume m: "(k, a) \<in> set (m_overlays s)" and e: "ov_element (m_heap s a) = Some r"
    then have ok: "okey d s a = key" by (simp add: okey_def key_def)
    have na: "a \<notin> snd ` set (m_overlays s')"
      using ok by (auto simp: ov)
    have "k \<notin> fst ` set (m_overlays s')"
    proof
      assume "k \<in> fst ` set (m_overlays s')"
      then obtain b where b: "(k, b) \<in> set (m_overlays s)" "okey d s b \<noteq> key"
        by (auto simp: ov)
      from consistent_lookup(1) [OF assms b(1)] consistent_lookup(1) [OF assms m] ok b(2)
      show False by simp
    qed
    then have "map_of (m_overlays s') k = None"
      by (simp add: map_of_eq_None_iff)
    moreover have "\<forall>k'. a \<notin> set (container_overlays s' k')"
      using consistent_absent [OF s'(2) na] by simp
    ultimately show "map_of (m_overlays s') k = None \<and> (\<forall>k'. a \<notin> set (container_overlays s' k'))"
      by simp
  qed
  with run s'(1) ov empty show ?thesis
    by (simp add: key_def)
qed

theorem element_remove_removes_overlays_witness:
  "consistent diagram1 manager2 \<and>
   (\<exists>s'. on_element_remove diagram1 0 manager2 = (None, s') \<and> m_overlays s' = [] \<and>
        container_overlays s' ''shape1'' = [])"
proof -
  from manager2_facts(2) have "okey diagram1 manager2 0 = ''shape1''"
    by (simp add: okey_def diagram1_def shape1_def)
  with element_remove_removes_overlays [OF consistent_manager2, of 0] consistent_manager2
  show ?thesis
    by (auto simp: manager2_overlays diagram1_def shape1_def)
qed

subsection \<open>The visibility pass\<close>

lemma set_visibility_idem [simp]: "set_visibility vb (set_visibility vb ov) = set_visibility vb ov"
  by (simp add: set_visibility_def split: option.splits)

lemma set_visibility_fields [simp]:
  "ov_id (set_visibility vb ov) = ov_id ov"
  "ov_element (set_visibility vb ov) = ov_element ov"
  "ov_show (set_visibility vb ov) = ov_show ov"
  "ov_position (set_visibility vb ov) = ov_position ov"
  "ov_type (set_visibility vb ov) = ov_type ov"
  "(ov_htmlContainer (set_visibility vb ov) = None) = (ov_htmlContainer ov = None)"
  "(\<exists>w. ov_htmlContainer (set_visibility vb ov) = Some w) = (\<exists>w. ov_htmlContainer ov = Some w)"
  by (simp_all add: set_visibility_def split: option.splits)

lemma visibility_each_result:
  assumes "\<forall>a\<in>set as. ov_show (m_heap s a) \<noteq> None \<longrightarrow> ov_htmlContainer (m_heap s a) \<noteq> None"
  shows "visibility_each vb as s =
    (None, s\<lparr>m_heap := (\<lambda>a. if a \<in> set as then set_visibility vb (m_heap s a) else m_heap s a)\<rparr>)"
  using assms
proof (induction as arbitrary: s)
  case Nil
  then show ?case by simp
next
  case (Cons a as)
  define s1 where "s1 = s\<lparr>m_heap := (m_heap s)(a := set_visibility vb (m_heap s a))\<rparr>"
  have step: "visibility_each vb (a # as) s = visibility_each vb as s1"
  proof (cases "ov_show (m_heap s a)")
    case None
    then have "s1 = s" by (simp add: s1_def set_visibility_def)
    with None show ?thesis by simp
  next
    case (Some sh)
    with Cons.prems obtain w where "ov_htmlContainer (m_heap s a) = Some w" by auto
    with Some show ?thesis by (simp add: s1_def set_visibility_def)
  qed
  have "\<forall>b\<in>set as. ov_show (m_heap s1 b) \<noteq> None \<longrightarrow> ov_htmlContainer (m_heap s1 b) \<noteq> None"
    using Cons.prems by (simp add: s1_def)
  from Cons.IH [OF this] have "visibility_each vb as s1 =
    (None, s1\<lparr>m_heap := (\<lambda>b. if b \<in> set as then set_visibility vb (m_heap s1 b) else m_heap s1 b)\<rparr>)" .
  moreover have "(\<lambda>b. if b \<in> set as then set_visibility vb (m_heap s1 b) else m_heap s1 b)
      = (\<lambda>b. if b \<in> set (a # as) then set_visibility vb (m_heap s b) else m_heap s b)"
    by (auto simp: s1_def fun_eq_iff)
  ultimately show ?case
    using step by (simp add: s1_def)
qed

lemma consistent_heap:
  assumes "consistent d s"
    and "\<And>a. ov_id (h a) = ov_id (m_heap s a) \<and> ov_element (h a) = ov_element (m_heap s a) \<and>
          (ov_htmlContainer (h a) = None) = (ov_htmlContainer (m_heap s a) = None)"
  shows "consistent d (s\<lparr>m_heap := h\<rparr>)"
proof -
  have "\<And>a. okey d (s\<lparr>m_heap := h\<rparr>) a = okey d s a"
    by (simp add: okey_def assms(2))
  moreover have "\<And>k. container_overlays (s\<lparr>m_heap := h\<rparr>) k = container_overlays s k"
    by (simp add: container_overlays_def)
  ultimately show ?thesis
    using assms by (simp add: consistent_def)
qed

lemma consistent_frame [simp]:
  "consistent d (s\<lparr>m_rootShown := x1\<rparr>) = consistent d s"
  "consistent d (s\<lparr>m_rootTransform := x2\<rparr>) = consistent d s"
  "consistent d (s\<lparr>m_pending := x3\<rparr>) = consistent d s"
  "consistent d (s\<lparr>m_passes := x4\<rparr>) = consistent d s"
  "consistent d (s\<lparr>m_deferUpdate := x5\<rparr>) = consistent d s"
  by (simp_all add: consistent_def okey_def container_overlays_def)

lemma consistent_wrappers:
  assumes "consistent d s"
  shows "\<forall>a\<in>set (map snd (m_overlays s)).
    ov_htmlContainer (m_heap s a) \<noteq> None \<and> ov_element (m_heap s a) \<noteq> None"
  using assms by (fastforce simp: consistent_def)

lemma updateOverlayVisibilty_result:
  assumes "consistent d s"
  shows "updateOverlayVisibilty vb s =
    (None, s\<lparr>m_passes := m_passes s @ [vb],
             m_heap := (\<lambda>a. if a \<in> snd ` set (m_overlays s) then set_visibility vb (m_heap s a)
                             else m_heap s a)\<rparr>)"
proof -
  have "\<forall>a\<in>set (map snd (m_overlays s)).
      ov_show (m_heap (s\<lparr>m_passes := m_passes s @ [vb]\<rparr>) a) \<noteq> None \<longrightarrow>
      ov_htmlContainer (m_heap (s\<lparr>m_passes := m_passes s @ [vb]\<rparr>) a) \<noteq> None"
    using consistent_wrappers [OF assms] by simp
  from visibility_each_result [OF this, of vb] show ?thesis
    by (simp add: updateOverlayVisibilty_def cong: if_cong)
qed

lemma updateViewbox_result:
  assumes "consistent d s"
  shows "updateViewbox vb s =
    (None, s\<lparr>m_rootTransform := m_rootTransform (updateRoot vb s),
             m_passes := m_passes s @ [vb],
             m_heap := (\<lambda>a. if a \<in> snd ` set (m_overlays s) then set_visibility vb (m_heap s a)
                             else m_heap s a),
             m_rootShown := True\<rparr>)"
proof -
  have "consistent d (updateRoot vb s)"
    using assms by (simp add: updateRoot_def Let_def)
  from updateOverlayVisibilty_result [OF this, of vb] show ?thesis
    by (simp add: updateViewbox_def updateRoot_def show_overlays_def Let_def cong: if_cong)
qed

lemma consistent_updateViewbox:
  assumes "consistent d s"
  shows "consistent d (snd (updateViewbox vb s))"
  unfolding updateViewbox_result [OF assms] snd_conv
  using assms by (simp add: consistent_heap)

text \<open>
  Claim C3. In a consistent manager, processing a viewbox change (\<open>updateViewbox\<close>)
  returns normally, and afterwards the wrapper of every overlay of the id map that has a
  \<open>show\<close> policy is shown exactly when the test of the source does not fire; when
  \<open>minZoom\<close> and \<open>maxZoom\<close> are both given, that is exactly when the scale lies in
  \<open>[minZoom, maxZoom]\<close>. The witness runs the overlay with range \<open>[1, 2]\<close> at the
  scales 0.5, 3 and 1.5.
\<close>

theorem visibility_follows_zoom_range:
  assumes "consistent d s"
  shows "\<exists>s'. updateViewbox vb s = (None, s') \<and>
     (\<forall>(k, a) \<in> set (m_overlays s). \<forall>sh. ov_show (m_heap s a) = Some sh \<longrightarrow>
        (\<exists>w. ov_htmlContainer (m_heap s' a) = Some w \<and> w_shown w = (\<not> out_of_range sh vb) \<and>
             (\<forall>lo hi. sh_minZoom sh = Some lo \<longrightarrow> sh_maxZoom sh = Some hi \<longrightarrow>
                w_shown w = (lo \<le> vb_scale vb \<and> vb_scale vb \<le> hi))))"
proof -
  have "\<And>k a sh. (k, a) \<in> set (m_overlays s) \<Longrightarrow> ov_show (m_heap s a) = Some sh \<Longrightarrow>
     \<exists>w. ov_htmlContainer (set_visibility vb (m_heap s a)) = Some w \<and>
         w_shown w = (\<not> out_of_range sh vb) \<and>
         (\<forall>lo hi. sh_minZoom sh = Some lo \<longrightarrow> sh_maxZoom sh = Some hi \<longrightarrow>
                w_shown w = (lo \<le> vb_scale vb \<and> vb_scale vb \<le> hi))"
  proof -
    fix k a sh assume m: "(k, a) \<in> set (m_overlays s)" and sh: "ov_show (m_heap s a) = Some sh"
    from consistent_wrappers [OF assms] m obtain w where "ov_htmlContainer (m_heap s a) = Some w"
      by force
    with sh show "\<exists>w. ov_htmlContainer (set_visibility vb (m_heap s a)) = Some w \<and>
         w_shown w = (\<not> out_of_range sh vb) \<and>
         (\<forall>lo hi. sh_minZoom sh = Some lo \<longrightarrow> sh_maxZoom sh = Some hi \<longrightarrow>
                w_shown w = (lo \<le> vb_scale vb \<and> vb_scale vb \<le> hi))"
      by (auto simp: set_visibility_def out_of_range_def)
  qed
  note * = this
  define s' where "s' = s\<lparr>m_rootTransform := m_rootTransform (updateRoot vb s),
             m_passes := m_passes s @ [vb],
             m_heap := (\<lambda>a. if a \<in> snd ` set (m_overlays s) then set_visibility vb (m_heap s a)
                             else m_heap s a),
             m_rootShown := True\<rparr>"
  have r: "updateViewbox vb s = (None, s')"
    unfolding s'_def by (rule updateViewbox_result [OF assms])
  have h: "\<And>k a. (k, a) \<in> set (m_overlays s) \<Longrightarrow> m_heap s' a = set_visibility vb (m_heap s a)"
  proof -
    fix k a assume "(k, a) \<in> set (m_overlays s)"
    then have "a \<in> snd ` set (m_overlays s)" by force
    then show "m_heap s' a = set_visibility vb (m_heap s a)" by (simp add: s'_def)
  qed
  show ?thesis
  proof (intro exI conjI)
    show "updateViewbox vb s = (None, s')" by (rule r)
    show "\<forall>(k, a) \<in> set (m_overlays s). \<forall>sh. ov_show (m_heap s a) = Some sh \<longrightarrow>
        (\<exists>w. ov_htmlContainer (m_heap s' a) = Some w \<and> w_shown w = (\<not> out_of_range sh vb) \<and>
             (\<forall>lo hi. sh_minZoom sh = Some lo \<longrightarrow> sh_maxZoom sh = Some hi \<longrightarrow>
                w_shown w = (lo \<le> vb_scale vb \<and> vb_scale vb \<le> hi)))"
    proof (clarify)
      fix k a sh assume m: "(k, a) \<in> set (m_overlays s)" and sh: "ov_show (m_heap s a) = Some sh"
      from * [OF m sh] show "\<exists>w. ov_htmlContainer (m_heap s' a) = Some w \<and>
         w_shown w = (\<not> out_of_range sh vb) \<and>
         (\<forall>lo hi. sh_minZoom sh = Some lo \<longrightarrow> sh_maxZoom sh = Some hi \<longrightarrow>
                w_shown w = (lo \<le> vb_scale vb \<and> vb_scale vb \<le> hi))"
        unfolding h [OF m] .
    qed
  qed
qed

lemma manager3_facts:
  "m_overlays manager3 = [(''ov-1'', 0)]"
  "ov_show (m_heap manager3 0) = Some \<lparr>sh_trigger = None, sh_minZoom = Some 1, sh_maxZoom = Some 2\<rparr>"
  by (simp_all add: manager3_def add_result overlay_given_def zoom_note_def falsy_html_def
      resolve_element_def diagram1_def shape1_def manager1_def Overlays_def ids1_def dec_1
      lookup_def object_prototype_names_def)

lemma consistent_manager3: "consistent diagram1 manager3"
  unfolding manager3_def manager1_def by (intro consistent_add consistent_Overlays)

theorem visibility_follows_zoom_range_witness:
  "consistent diagram1 manager3 \<and>
   (\<exists>s' w. updateViewbox \<lparr>vb_x = 0, vb_y = 0, vb_scale = 1 / 2\<rparr> manager3 = (None, s') \<and>
      ov_htmlContainer (m_heap s' 0) = Some w \<and> \<not> w_shown w) \<and>
   (\<exists>s' w. updateViewbox \<lparr>vb_x = 0, vb_y = 0, vb_scale = 3\<rparr> manager3 = (None, s') \<and>
      ov_htmlContainer (m_heap s' 0) = Some w \<and> \<not> w_shown w) \<and>
   (\<exists>s' w. updateViewbox \<lparr>vb_x = 0, vb_y = 0, vb_scale = 3 / 2\<rparr> manager3 = (None, s') \<and>
      ov_htmlContainer (m_heap s' 0) = Some w \<and> w_shown w)"
  using consistent_manager3
    visibility_follows_zoom_range [OF consistent_manager3, of "\<lparr>vb_x = 0, vb_y = 0, vb_scale = 1 / 2\<rparr>"]
    visibility_follows_zoom_range [OF consistent_manager3, of "\<lparr>vb_x = 0, vb_y = 0, vb_scale = 3\<rparr>"]
    visibility_follows_zoom_range [OF consistent_manager3, of "\<lparr>vb_x = 0, vb_y = 0, vb_scale = 3 / 2\<rparr>"]
  by (simp add: manager3_facts) blast

subsection \<open>Overlays with the manual trigger\<close>

lemma manager4_facts:
  "m_overlays manager4 = [(''ov-1'', 0)]"
  "ov_show (m_heap manager4 0) =
     Some \<lparr>sh_trigger = Some ''manual'', sh_minZoom = Some 1, sh_maxZoom = Some 2\<rparr>"
  "ov_htmlContainer (m_heap manager4 0) =
     Some \<lparr>w_left = Some 0, w_top = Some 0, w_shown = True, w_classes = [''djs-overlay'']\<rparr>"
  by (simp_all add: manager4_def add_result overlay_given_def manual_note_def falsy_html_def
      resolve_element_def diagram1_def shape1_def manager1_def Overlays_def ids1_def dec_1
      overlay_left_def overlay_top_def or_zero_def type_given_def truthy_str_def
      lookup_def object_prototype_names_def)

text \<open>
  Claim C4 says that an overlay whose \<open>show.trigger\<close> is \<open>'manual'\<close> is left alone
  by the visibility pass. The source never reads \<open>trigger\<close>: an overlay added with
  trigger \<open>'manual'\<close> and range \<open>[1, 2]\<close> is shown after \<open>add\<close>, and the pass at
  scale 0.5 hides it.
\<close>

theorem manual_overlay_hidden_by_viewbox_pass:
  "\<exists>w0 s' w.
     ov_show (m_heap manager4 0) =
       Some \<lparr>sh_trigger = Some ''manual'', sh_minZoom = Some 1, sh_maxZoom = Some 2\<rparr> \<and>
     ov_htmlContainer (m_heap manager4 0) = Some w0 \<and> w_shown w0 \<and>
     updateOverlayVisibilty \<lparr>vb_x = 0, vb_y = 0, vb_scale = 1 / 2\<rparr> manager4 = (None, s') \<and>
     ov_htmlContainer (m_heap s' 0) = Some w \<and> \<not> w_shown w"
  by (simp add: manager4_facts updateOverlayVisibilty_def out_of_range_def)

subsection \<open>get by element\<close>

lemma get_by_element_result:
  assumes "consistent d s" "truthy_elem (Some e)" "getOverlayContainer d (Some e) s \<noteq> Inherited"
  shows "get d (SearchObj \<lparr>s_id = i, s_element = Some e, s_type = t\<rparr>) s =
           Many (filter (\<lambda>a. okey d s a = container_key d (Some e) \<and>
                              (truthy_str t \<longrightarrow> ov_type (m_heap s a) = t))
                   (map snd (m_overlays s)))"
proof -
  define key where "key = container_key d (Some e)"
  have con: "container_overlays s key = filter (\<lambda>a. okey d s a = key) (map snd (m_overlays s))"
    using assms(1) by (simp add: consistent_def)
  have g: "get d (SearchObj \<lparr>s_id = i, s_element = Some e, s_type = t\<rparr>) s =
      Many (if truthy_str t then filter_type s t (container_overlays s key)
            else container_overlays s key)"
    using assms(2,3)
    by (cases "m_overlayContainers s key")
      (simp_all add: get.simps get_search_def getOverlayContainer_def container_overlays_def
        key_def filter_type_def lookup_def del: container_key.simps split: if_splits)
  have "(if truthy_str t then filter_type s t (container_overlays s key)
         else container_overlays s key) =
        filter (\<lambda>a. okey d s a = key \<and> (truthy_str t \<longrightarrow> ov_type (m_heap s a) = t))
          (map snd (m_overlays s))"
    by (simp add: con filter_type_def conj_commute)
  with g show ?thesis
    by (simp add: key_def del: container_key.simps)
qed

lemma get_by_inherited_element:
  assumes "truthy_elem (Some e)" "getOverlayContainer d (Some e) s = Inherited"
  shows "get d (SearchObj \<lparr>s_id = i, s_element = Some e, s_type = t\<rparr>) s =
           (if truthy_str t then Many [] else Undefined)"
  using assms by (simp add: get.simps get_search_def)

lemma manager5_facts:
  "m_overlays manager5 = [(''ov-1'', 0), (''ov-2'', 1), (''ov-3'', 2)]"
  "ov_type (m_heap manager5 0) = Some ''note''"
  "ov_type (m_heap manager5 (Suc 0)) = Some ''badge''"
  "ov_type (m_heap manager5 2) = Some ''note''"
  "ov_element (m_heap manager5 0) = Some 0"
  "ov_element (m_heap manager5 (Suc 0)) = Some 0"
  "ov_element (m_heap manager5 2) = Some 0"
  "m_overlayContainers manager5 ''constructor'' = None"
  "m_overlayContainers manager5 ''connection1'' = None"
  by (simp_all add: manager5_def manager2_def add_result overlay_given_def badge_def
      falsy_html_def resolve_element_def diagram1_def shape1_def manager1_def Overlays_def
      ids1_def type_given_def dec_1 dec_2 dec_3 lookup_def object_prototype_names_def)

lemma consistent_manager5: "consistent diagram1 manager5"
  unfolding manager5_def by (intro consistent_add consistent_manager2)

lemma get_by_element_example:
  "get diagram1 (SearchObj \<lparr>s_id = None, s_element = Some (ElemId ''shape1''),
                            s_type = Some ''note''\<rparr>) manager5 = Many [0, 2] \<and>
   get diagram1 (SearchObj \<lparr>s_id = None, s_element = Some (ElemId ''shape1''),
                            s_type = None\<rparr>) manager5 = Many [0, 1, 2]"
proof -
  have t: "truthy_elem (Some (ElemId ''shape1''))"
    by (simp add: truthy_elem_def)
  have k: "okey diagram1 manager5 0 = ''shape1''" "okey diagram1 manager5 (Suc 0) = ''shape1''"
    "okey diagram1 manager5 2 = ''shape1''"
    by (simp_all add: okey_def manager5_facts diagram1_def shape1_def)
  have n: "getOverlayContainer diagram1 (Some (ElemId ''shape1'')) manager5 \<noteq> Inherited"
    by (simp add: getOverlayContainer_def lookup_Inherited object_prototype_names_def)
  show ?thesis
    using k get_by_element_result [OF consistent_manager5 t n, of None "Some ''note''"]
      get_by_element_result [OF consistent_manager5 t n, of None None]
    by (simp add: manager5_facts truthy_str_def)
qed

text \<open>
  Claim C8 says that \<open>get\<close> by an element that has no container returns an empty
  sequence. In the manager that holds three overlays of the shape, neither the id
  \<open>connection1\<close> nor the id \<open>constructor\<close> has a container; for the first
  \<open>get\<close> returns the empty list, for the second the lookup finds
  \<open>Object.prototype.constructor\<close> and \<open>get\<close> returns \<open>undefined\<close>.
\<close>

theorem get_by_inherited_name_undefined:
  "m_overlayContainers manager5 ''connection1'' = None \<and>
   get diagram1 (SearchObj \<lparr>s_id = None, s_element = Some (ElemId ''connection1''),
                            s_type = None\<rparr>) manager5 = Many [] \<and>
   m_overlayContainers manager5 ''constructor'' = None \<and>
   get diagram1 (SearchObj \<lparr>s_id = None, s_element = Some (ElemId ''constructor''),
                            s_type = None\<rparr>) manager5 = Undefined"
  by (simp add: manager5_facts get.simps get_search_def truthy_elem_def truthy_str_def
      getOverlayContainer_def lookup_def object_prototype_names_def)

subsection \<open>Positioning\<close>

lemma reposition_idem [simp]: "reposition d (reposition d ov) = reposition d ov"
  by (simp add: reposition_def split: option.splits)

lemma reposition_fields [simp]:
  "ov_id (reposition d ov) = ov_id ov"
  "ov_element (reposition d ov) = ov_element ov"
  "ov_show (reposition d ov) = ov_show ov"
  "ov_position (reposition d ov) = ov_position ov"
  "ov_type (reposition d ov) = ov_type ov"
  "(ov_htmlContainer (reposition d ov) = None) = (ov_htmlContainer ov = None)"
  "(\<exists>w. ov_htmlContainer (reposition d ov) = Some w) = (\<exists>w. ov_htmlContainer ov = Some w)"
  by (simp_all add: reposition_def split: option.splits)

lemma updateOverlay_result:
  assumes "ov_htmlContainer (m_heap s a) \<noteq> None" "ov_element (m_heap s a) \<noteq> None"
  shows "updateOverlay d a s = (None, s\<lparr>m_heap := (m_heap s)(a := reposition d (m_heap s a))\<rparr>)"
  using assms by (auto simp: updateOverlay_def reposition_def Let_def)

lemma updateOverlay_each_result:
  assumes "\<forall>a\<in>set as. ov_htmlContainer (m_heap s a) \<noteq> None \<and> ov_element (m_heap s a) \<noteq> None"
  shows "updateOverlay_each d as s =
    (None, s\<lparr>m_heap := (\<lambda>a. if a \<in> set as then reposition d (m_heap s a) else m_heap s a)\<rparr>)"
  using assms
proof (induction as arbitrary: s)
  case Nil
  then show ?case by simp
next
  case (Cons a as)
  define s1 where "s1 = s\<lparr>m_heap := (m_heap s)(a := reposition d (m_heap s a))\<rparr>"
  have step: "updateOverlay_each d (a # as) s = updateOverlay_each d as s1"
    using Cons.prems by (simp add: updateOverlay_result s1_def)
  have "\<forall>b\<in>set as. ov_htmlContainer (m_heap s1 b) \<noteq> None \<and> ov_element (m_heap s1 b) \<noteq> None"
    using Cons.prems by (simp add: s1_def)
  from Cons.IH [OF this] have "updateOverlay_each d as s1 =
    (None, s1\<lparr>m_heap := (\<lambda>b. if b \<in> set as then reposition d (m_heap s1 b) else m_heap s1 b)\<rparr>)" .
  moreover have "(\<lambda>b. if b \<in> set as then reposition d (m_heap s1 b) else m_heap s1 b)
      = (\<lambda>b. if b \<in> set (a # as) then reposition d (m_heap s b) else m_heap s b)"
    by (auto simp: s1_def fun_eq_iff)
  ultimately show ?case
    using step by (simp add: s1_def)
qed

lemma consistent_container_update:
  assumes "consistent d s" "m_overlayContainers s k = Some c" "c_overlays c' = c_overlays c"
  shows "consistent d (s\<lparr>m_overlayContainers := (m_overlayContainers s)(k \<mapsto> c')\<rparr>)"
proof -
  have "\<And>k'. container_overlays (s\<lparr>m_overlayContainers := (m_overlayContainers s)(k \<mapsto> c')\<rparr>) k'
      = container_overlays s k'"
    using assms(2,3) by (simp add: container_overlays_def)
  then show ?thesis
    using assms(1) by (simp add: consistent_def okey_def)
qed

lemma updateOverlayContainer_overlays [simp]:
  "c_overlays (updateOverlayContainer d c) = c_overlays c"
  by (simp add: updateOverlayContainer_def Let_def)

lemma on_element_changed_result:
  assumes "consistent d s"
  shows "on_element_changed d r s =
    (case m_overlayContainers s (container_key d (Some (ElemObj r))) of
       None \<Rightarrow>
         (if container_key d (Some (ElemObj r)) \<in> set object_prototype_names
          then Some TypeError else None, s)
     | Some c \<Rightarrow>
         (None,
          s\<lparr>m_heap := (\<lambda>a. if a \<in> set (c_overlays c) then reposition d (m_heap s a)
                            else m_heap s a),
            m_overlayContainers := (m_overlayContainers s)
              (container_key d (Some (ElemObj r)) \<mapsto> updateOverlayContainer d c)\<rparr>))"
proof (cases "m_overlayContainers s (container_key d (Some (ElemObj r)))")
  case None
  then show ?thesis
    by (simp add: on_element_changed_def getOverlayContainer_def lookup_def
        del: container_key.simps)
next
  case (Some c)
  then have "c_overlays c = container_overlays s (container_key d (Some (ElemObj r)))"
    by (simp add: container_overlays_def)
  with consistent_container_refs(1) [OF assms, of "container_key d (Some (ElemObj r))"]
    consistent_wrappers [OF assms]
  have "\<forall>a\<in>set (c_overlays c). ov_htmlContainer (m_heap s a) \<noteq> None \<and> ov_element (m_heap s a) \<noteq> None"
    by auto
  from updateOverlay_each_result [OF this, of d] Some show ?thesis
    by (simp add: on_element_changed_def getOverlayContainer_def Let_def lookup_def
        del: container_key.simps)
qed

lemma consistent_on_element_changed:
  assumes "consistent d s"
  shows "consistent d (snd (on_element_changed d r s))"
proof (cases "m_overlayContainers s (container_key d (Some (ElemObj r)))")
  case None
  with assms show ?thesis
    by (simp add: on_element_changed_result del: container_key.simps)
next
  case (Some c)
  have "consistent d (s\<lparr>m_heap := (\<lambda>a. if a \<in> set (c_overlays c) then reposition d (m_heap s a)
                           else m_heap s a)\<rparr>)"
    using assms by (intro consistent_heap) simp_all
  from consistent_container_update [OF this, of "container_key d (Some (ElemObj r))" c
      "updateOverlayContainer d c"] Some
  show ?thesis
    by (simp add: on_element_changed_result [OF assms] del: container_key.simps)
qed

lemma consistent_same_ids:
  assumes "consistent d s" "\<And>r. el_id (d_elements d' r) = el_id (d_elements d r)"
  shows "consistent d' s"
proof -
  have "\<And>e. container_key d' e = container_key d e"
  proof -
    fix e show "container_key d' e = container_key d e"
      by (cases "(d, e)" rule: container_key.cases) (simp_all add: assms(2))
  qed
  then have "\<And>a. okey d' s a = okey d s a"
    by (simp add: okey_def)
  with assms(1) show ?thesis
    by (simp add: consistent_def)
qed

lemma overlay_left_right:
  "pos_right p = Some x \<Longrightarrow> overlay_left d p e = elem_width d e - x"
  by (simp add: overlay_left_def or_zero_def)

lemma overlay_top_bottom:
  "pos_bottom p = Some y \<Longrightarrow> overlay_top d p e = elem_height d e - y"
  by (simp add: overlay_top_def or_zero_def)

lemma add_returns:
  assumes "add d element type overlay s = (Inr new_id, s')"
  obtains ob position r where "overlay_given type overlay = Some ob"
    "cfg_position ob = Some position" "\<not> falsy_html (cfg_html ob)"
    "resolve_element d element = Some r" "d_jQuery d (the (cfg_html ob)) = None"
    "lookup (m_overlayContainers s) (container_key d (Some (ElemObj r))) \<noteq> Inherited"
proof -
  have "\<not> add_rejects d element type overlay"
    using assms add_rejected [of d element type overlay s] by auto
  then obtain ob position r where *: "overlay_given type overlay = Some ob"
    "cfg_position ob = Some position" "\<not> falsy_html (cfg_html ob)"
    "resolve_element d element = Some r"
    by (rule add_accepted)
  have j: "d_jQuery d (the (cfg_html ob)) = None"
  proof (cases "d_jQuery d (the (cfg_html ob))")
    case (Some e)
    from add_jQuery_throws [OF * Some, of s] assms show ?thesis by simp
  qed simp
  have "lookup (m_overlayContainers s) (container_key d (Some (ElemObj r))) \<noteq> Inherited"
  proof
    assume "lookup (m_overlayContainers s) (container_key d (Some (ElemObj r))) = Inherited"
    from add_push_throws [OF * j this] assms show False by simp
  qed
  with * j show thesis
    by (rule that)
qed

text \<open>
  Claim C2. When \<open>add\<close> returns an id, the wrapper of the new overlay has, for
  \<open>position.right = x\<close>, the left offset \<open>w - x\<close>, and for \<open>position.bottom = y\<close>
  the top offset \<open>h - y\<close>, where \<open>w\<close> and \<open>h\<close> are the width and height of the
  element, or of its bounding box when it has waypoints. In a consistent manager the
  handler of \<open>element.changed\<close> for the element of an overlay returns normally and
  leaves the wrapper with the offsets computed from the width and height the element has
  then.
\<close>

theorem right_and_bottom_offsets:
  "(\<forall>new_id s' ob p r.
      add d element type overlay s = (Inr new_id, s') \<longrightarrow>
      overlay_given type overlay = Some ob \<longrightarrow> cfg_position ob = Some p \<longrightarrow>
      resolve_element d element = Some r \<longrightarrow>
      (\<exists>a w. map_of (m_overlays s') new_id = Some a \<and> ov_htmlContainer (m_heap s' a) = Some w \<and>
         (\<forall>x. pos_right p = Some x \<longrightarrow> w_left w = Some (elem_width d (d_elements d r) - x)) \<and>
         (\<forall>y. pos_bottom p = Some y \<longrightarrow> w_top w = Some (elem_height d (d_elements d r) - y)))) \<and>
   (consistent d s \<longrightarrow>
      (\<forall>k a r. (k, a) \<in> set (m_overlays s) \<longrightarrow> ov_element (m_heap s a) = Some r \<longrightarrow>
         (\<exists>s' w. on_element_changed d r s = (None, s') \<and>
            ov_htmlContainer (m_heap s' a) = Some w \<and>
            (\<forall>x. pos_right (ov_position (m_heap s a)) = Some x \<longrightarrow>
                 w_left w = Some (elem_width d (d_elements d r) - x)) \<and>
            (\<forall>y. pos_bottom (ov_position (m_heap s a)) = Some y \<longrightarrow>
                 w_top w = Some (elem_height d (d_elements d r) - y))))) \<and>
   (\<forall>e. elem_width d e = (if el_waypoints e = None then el_width e
                          else bb_width (d_getBBox d e)) \<and>
        elem_height d e = (if el_waypoints e = None then el_height e
                           else bb_height (d_getBBox d e)))"
proof (intro conjI allI impI)
  fix new_id s' ob p r
  assume a: "add d element type overlay s = (Inr new_id, s')"
    and ob: "overlay_given type overlay = Some ob" and p: "cfg_position ob = Some p"
    and r: "resolve_element d element = Some r"
  from a obtain ob' p' r' where "overlay_given type overlay = Some ob'"
    "cfg_position ob' = Some p'" "\<not> falsy_html (cfg_html ob')"
    "resolve_element d element = Some r'" "d_jQuery d (the (cfg_html ob')) = None"
    "lookup (m_overlayContainers s) (container_key d (Some (ElemObj r'))) \<noteq> Inherited"
    by (rule add_returns)
  with ob p r have h: "\<not> falsy_html (cfg_html ob)" and j: "d_jQuery d (the (cfg_html ob)) = None"
    and l: "lookup (m_overlayContainers s) (container_key d (Some (ElemObj r))) \<noteq> Inherited"
    by simp_all
  show "\<exists>a w. map_of (m_overlays s') new_id = Some a \<and> ov_htmlContainer (m_heap s' a) = Some w \<and>
         (\<forall>x. pos_right p = Some x \<longrightarrow> w_left w = Some (elem_width d (d_elements d r) - x)) \<and>
         (\<forall>y. pos_bottom p = Some y \<longrightarrow> w_top w = Some (elem_height d (d_elements d r) - y))"
    using a unfolding add_result [OF ob p h r j l]
    by (auto simp: update_conv' overlay_left_right overlay_top_bottom)
next
  fix k a r
  assume c: "consistent d s" and m: "(k, a) \<in> set (m_overlays s)"
    and e: "ov_element (m_heap s a) = Some r"
  define key where "key = container_key d (Some (ElemObj r))"
  from consistent_wrappers [OF c] m obtain w0 where w0: "ov_htmlContainer (m_heap s a) = Some w0"
    by force
  have "a \<in> set (map snd (m_overlays s))" using m by force
  moreover have "okey d s a = key" by (simp add: okey_def e key_def)
  ultimately have "a \<in> set (container_overlays s key)"
    using c by (simp add: consistent_def)
  then obtain cc where cc: "m_overlayContainers s key = Some cc" "a \<in> set (c_overlays cc)"
    by (cases "m_overlayContainers s key") (auto simp: container_overlays_def)
  define s' where "s' = s\<lparr>m_heap := (\<lambda>a. if a \<in> set (c_overlays cc) then reposition d (m_heap s a)
                           else m_heap s a),
           m_overlayContainers := (m_overlayContainers s)(key \<mapsto> updateOverlayContainer d cc)\<rparr>"
  have res: "on_element_changed d r s = (None, s')"
    using cc unfolding key_def s'_def
    by (simp add: on_element_changed_result [OF c] del: container_key.simps)
  have hp: "m_heap s' a = reposition d (m_heap s a)"
    using cc by (simp add: s'_def)
  show "\<exists>s' w. on_element_changed d r s = (None, s') \<and>
            ov_htmlContainer (m_heap s' a) = Some w \<and>
            (\<forall>x. pos_right (ov_position (m_heap s a)) = Some x \<longrightarrow>
                 w_left w = Some (elem_width d (d_elements d r) - x)) \<and>
            (\<forall>y. pos_bottom (ov_position (m_heap s a)) = Some y \<longrightarrow>
                 w_top w = Some (elem_height d (d_elements d r) - y))"
    unfolding res
    by (simp add: hp reposition_def w0 e overlay_left_right overlay_top_bottom)
next
  fix e show "elem_width d e = (if el_waypoints e = None then el_width e
                          else bb_width (d_getBBox d e))"
    by (simp add: elem_width_def)
next
  fix e show "elem_height d e = (if el_waypoints e = None then el_height e
                           else bb_height (d_getBBox d e))"
    by (simp add: elem_height_def)
qed

lemma add_manager1:
  "add diagram1 (ElemId ''shape1'') (TypeStr ''note'') (Some badge) manager1
     = (Inr ''ov-1'', manager2)"
proof -
  have "fst (add diagram1 (ElemId ''shape1'') (TypeStr ''note'') (Some badge) manager1) = Inr ''ov-1''"
    by (simp add: add_result overlay_given_def badge_def falsy_html_def
      resolve_element_def diagram1_def shape1_def manager1_def Overlays_def ids1_def dec_1
      lookup_def object_prototype_names_def)
  then show ?thesis
    by (simp add: manager2_def prod_eq_iff)
qed

lemma add_manager2:
  "add diagram1 (ElemObj 1) TypeNone (Some badge) manager2 = (Inr ''ov-2'', manager6)"
proof -
  have "fst (add diagram1 (ElemObj 1) TypeNone (Some badge) manager2) = Inr ''ov-2''"
    by (simp add: add_result overlay_given_def badge_def falsy_html_def manager2_def
      resolve_element_def diagram1_def shape1_def connection1_def manager1_def Overlays_def
      ids1_def dec_2 lookup_def object_prototype_names_def)
  then show ?thesis
    by (simp add: manager6_def prod_eq_iff)
qed

lemma consistent_diagram2: "consistent diagram2 manager2"
  by (rule consistent_same_ids [OF consistent_manager2])
    (simp add: diagram2_def diagram1_def shape1_def)

theorem right_and_bottom_offsets_witness:
  "(\<exists>a w. map_of (m_overlays manager2) ''ov-1'' = Some a \<and>
      ov_htmlContainer (m_heap manager2 a) = Some w \<and> w_left w = Some 90 \<and> w_top w = Some 75) \<and>
   (\<exists>a w. map_of (m_overlays manager6) ''ov-2'' = Some a \<and>
      ov_htmlContainer (m_heap manager6 a) = Some w \<and> w_left w = Some 40 \<and> w_top w = Some 35) \<and>
   consistent diagram2 manager2 \<and> (''ov-1'', 0) \<in> set (m_overlays manager2) \<and>
   ov_element (m_heap manager2 0) = Some 0 \<and>
   (\<exists>s' w. on_element_changed diagram2 0 manager2 = (None, s') \<and>
      ov_htmlContainer (m_heap s' 0) = Some w \<and> w_left w = Some 140 \<and> w_top w = Some 55)"
proof -
  have p: "pos_right (ov_position (m_heap manager2 0)) = Some 10"
    "pos_bottom (ov_position (m_heap manager2 0)) = Some 5"
    by (simp_all add: manager2_def add_result overlay_given_def badge_def falsy_html_def
      resolve_element_def diagram1_def shape1_def manager1_def Overlays_def ids1_def
      lookup_def object_prototype_names_def)
  have 1: "\<exists>a w. map_of (m_overlays manager2) ''ov-1'' = Some a \<and>
      ov_htmlContainer (m_heap manager2 a) = Some w \<and> w_left w = Some 90 \<and> w_top w = Some 75"
    using right_and_bottom_offsets [of diagram1 "ElemId ''shape1''" "TypeStr ''note''"
        "Some badge" manager1] add_manager1
    by (simp add: overlay_given_def badge_def resolve_element_def diagram1_def shape1_def
        elem_width_def elem_height_def)
  have 2: "\<exists>a w. map_of (m_overlays manager6) ''ov-2'' = Some a \<and>
      ov_htmlContainer (m_heap manager6 a) = Some w \<and> w_left w = Some 40 \<and> w_top w = Some 35"
    using right_and_bottom_offsets [of diagram1 "ElemObj 1" TypeNone "Some badge" manager2]
      add_manager2
    by (simp add: overlay_given_def badge_def resolve_element_def diagram1_def connection1_def
        elem_width_def elem_height_def)
  have 3: "\<exists>s' w. on_element_changed diagram2 0 manager2 = (None, s') \<and>
      ov_htmlContainer (m_heap s' 0) = Some w \<and> w_left w = Some 140 \<and> w_top w = Some 55"
    using right_and_bottom_offsets [of diagram2 "ElemId []" TypeNone None manager2]
      consistent_diagram2 p
    by (simp add: manager2_overlays manager2_facts diagram2_def diagram1_def shape1_def
        elem_width_def elem_height_def)
  from 1 2 3 consistent_diagram2 show ?thesis
    by (simp add: manager2_overlays manager2_facts)
qed

subsection \<open>Ids returned along a run\<close>

lemma remove_overlay_ids [simp]: "m_ids (snd (remove_overlay d a s)) = m_ids s"
  by (simp add: remove_overlay_def Let_def split: option.splits property.splits)

lemma remove_each_ids [simp]: "m_ids (snd (remove_each d as s)) = m_ids s"
proof (induction as arbitrary: s)
  case Nil
  show ?case by simp
next
  case (Cons a as)
  obtain e s1 where r: "remove_overlay d a s = (e, s1)" by (cases "remove_overlay d a s")
  then have "m_ids s1 = m_ids s"
    using remove_overlay_ids [of d a s] by simp
  with r Cons.IH [of s1] show ?case
    by (cases e) simp_all
qed

lemma remove_ids [simp]: "m_ids (snd (remove d flt s)) = m_ids s"
proof (cases "get d flt s")
  case (One a)
  with remove_each_ids [of d "[a]" s] show ?thesis
    by (simp only: remove_def get_result.case)
next
  case (Many as)
  with remove_each_ids [of d as s] show ?thesis
    by (simp only: remove_def get_result.case)
qed (simp_all add: remove_def)

lemma remove_ids_each_ids [simp]: "m_ids (snd (remove_ids_each d as s)) = m_ids s"
proof (induction as arbitrary: s)
  case Nil
  show ?case by simp
next
  case (Cons a as)
  obtain e s1 where r: "remove d (SearchString (ov_id (m_heap s a))) s = (e, s1)"
    by (cases "remove d (SearchString (ov_id (m_heap s a))) s")
  then have "m_ids s1 = m_ids s"
    using remove_ids [of d "SearchString (ov_id (m_heap s a))" s] by simp
  with r Cons.IH [of s1] show ?case
    by (cases e) simp_all
qed

lemma on_element_remove_ids [simp]: "m_ids (snd (on_element_remove d r s)) = m_ids s"
  by (simp add: on_element_remove_def split: get_result.splits)

lemma updateOverlay_ids [simp]: "m_ids (snd (updateOverlay d a s)) = m_ids s"
  by (simp add: updateOverlay_def Let_def split: option.splits)

lemma updateOverlay_each_ids [simp]: "m_ids (snd (updateOverlay_each d as s)) = m_ids s"
proof (induction as arbitrary: s)
  case Nil
  show ?case by simp
next
  case (Cons a as)
  obtain e s1 where r: "updateOverlay d a s = (e, s1)" by (cases "updateOverlay d a s")
  then have "m_ids s1 = m_ids s"
    using updateOverlay_ids [of d a s] by simp
  with r Cons.IH [of s1] show ?case
    by (cases e) simp_all
qed

lemma on_element_changed_ids [simp]: "m_ids (snd (on_element_changed d r s)) = m_ids s"
proof (cases "getOverlayContainer d (Some (ElemObj r)) s")
  case (Own c)
  obtain e s1 where r: "updateOverlay_each d (c_overlays c) s = (e, s1)"
    by (cases "updateOverlay_each d (c_overlays c) s")
  then have "m_ids s1 = m_ids s"
    using updateOverlay_each_ids [of d "c_overlays c" s] by simp
  with r Own show ?thesis
    by (cases e) (simp_all add: on_element_changed_def Let_def)
qed (simp_all add: on_element_changed_def)

lemma visibility_each_ids [simp]: "m_ids (snd (visibility_each vb as s)) = m_ids s"
proof (induction as arbitrary: s)
  case Nil
  show ?case by simp
next
  case (Cons a as)
  show ?case
    by (simp add: Let_def Cons.IH split: option.splits)
qed

lemma updateViewbox_ids [simp]: "m_ids (snd (updateViewbox vb s)) = m_ids s"
proof -
  obtain e s1 where r: "updateOverlayVisibilty vb (updateRoot vb s) = (e, s1)"
    by (cases "updateOverlayVisibilty vb (updateRoot vb s)")
  then have "m_ids s1 = m_ids s"
    using visibility_each_ids [of vb "map snd (m_overlays (updateRoot vb s))"
        "updateRoot vb s\<lparr>m_passes := m_passes (updateRoot vb s) @ [vb]\<rparr>"]
    by (simp add: updateOverlayVisibilty_def updateRoot_def Let_def)
  with r show ?thesis
    by (cases e) (simp_all add: updateViewbox_def show_overlays_def)
qed

lemma timer_fired_ids [simp]: "m_ids (snd (timer_fired now s)) = m_ids s"
proof (cases "m_pending s")
  case None
  then show ?thesis by (simp add: timer_fired_def)
next
  case (Some p)
  obtain due vb where "p = (due, vb)" by (cases p)
  with Some updateViewbox_ids [of vb "s\<lparr>m_pending := None\<rparr>"] show ?thesis
    by (simp add: timer_fired_def)
qed

lemma on_viewbox_changed_ids [simp]: "m_ids (snd (on_viewbox_changed now vb s)) = m_ids s"
  using updateViewbox_ids [of vb "hide_overlays s"]
  by (simp add: on_viewbox_changed_def Let_def hide_overlays_def debounced_updateViewbox_def)

lemma on_marker_update_ids [simp]: "m_ids (snd (on_marker_update d r marker adding s)) = m_ids s"
  by (simp add: on_marker_update_def Let_def split: property.splits)

lemma add_ids:
  "g_prefix (m_ids (snd (add d element type overlay s))) = g_prefix (m_ids s) \<and>
   g_counter (m_ids s) \<le> g_counter (m_ids (snd (add d element type overlay s))) \<and>
   (\<forall>new_id. fst (add d element type overlay s) = Inr new_id \<longrightarrow>
      new_id = g_prefix (m_ids s) @ dec (Suc (g_counter (m_ids s))) \<and>
      g_counter (m_ids (snd (add d element type overlay s))) = Suc (g_counter (m_ids s)))"
proof (cases "add_rejects d element type overlay")
  case True
  from add_rejected [OF this, of s] show ?thesis by auto
next
  case False
  then obtain ob position r where *: "overlay_given type overlay = Some ob"
    "cfg_position ob = Some position" "\<not> falsy_html (cfg_html ob)"
    "resolve_element d element = Some r"
    by (rule add_accepted)
  show ?thesis
  proof (cases "d_jQuery d (the (cfg_html ob))")
    case (Some e)
    show ?thesis
      by (simp add: add_jQuery_throws [OF * Some])
  next
    case None
    show ?thesis
    proof (cases "lookup (m_overlayContainers s) (container_key d (Some (ElemObj r))) = Inherited")
      case True
      show ?thesis
        by (simp add: add_push_throws [OF * None True])
    next
      case False
      show ?thesis
        by (simp add: add_result [OF * None False])
    qed
  qed
qed

lemma thrown_simps [simp]:
  "snd (thrown p) = snd p"
  "fst (thrown p) \<noteq> Inr (Some i)"
  by (simp_all add: thrown_def split: option.splits)

lemma step_ids:
  "g_prefix (m_ids (snd (step x s))) = g_prefix (m_ids s) \<and>
   g_counter (m_ids s) \<le> g_counter (m_ids (snd (step x s))) \<and>
   (\<forall>new_id. fst (step x s) = Inr (Some new_id) \<longrightarrow>
      new_id = g_prefix (m_ids s) @ dec (Suc (g_counter (m_ids s))) \<and>
      g_counter (m_ids (snd (step x s))) = Suc (g_counter (m_ids s)))"
proof -
  obtain now d act where x: "x = (now, d, act)" by (cases x)
  show ?thesis
  proof (cases act)
    case (Add element type overlay)
    obtain res s1 where a: "add d element type overlay s = (res, s1)"
      by (cases "add d element type overlay s")
    with add_ids [of d element type overlay s] show ?thesis
      by (cases res) (simp_all add: x Add)
  qed (simp_all add: x show_overlays_def hide_overlays_def)
qed

lemma run_ids:
  "g_prefix (m_ids (snd (run xs s))) = g_prefix (m_ids s) \<and>
   g_counter (m_ids s) \<le> g_counter (m_ids (snd (run xs s))) \<and>
   (\<forall>i \<in> set (returned_ids (fst (run xs s))).
      \<exists>n. g_counter (m_ids s) < n \<and> n \<le> g_counter (m_ids (snd (run xs s))) \<and>
          i = g_prefix (m_ids s) @ dec n) \<and>
   distinct (returned_ids (fst (run xs s)))"
proof (induction xs arbitrary: s)
  case Nil
  show ?case by simp
next
  case (Cons x xs)
  obtain out s1 where st: "step x s = (out, s1)" by (cases "step x s")
  obtain outs s2 where rn: "run xs s1 = (outs, s2)" by (cases "run xs s1")
  have r: "run (x # xs) s = (out # outs, s2)"
    by (simp add: st rn)
  from Cons.IH [of s1] rn
  have ih: "g_prefix (m_ids s2) = g_prefix (m_ids s1)" "g_counter (m_ids s1) \<le> g_counter (m_ids s2)"
    "\<And>i. i \<in> set (returned_ids outs) \<Longrightarrow>
      \<exists>n. g_counter (m_ids s1) < n \<and> n \<le> g_counter (m_ids s2) \<and> i = g_prefix (m_ids s1) @ dec n"
    "distinct (returned_ids outs)"
    by simp_all
  from step_ids [of x s] st have p: "g_prefix (m_ids s1) = g_prefix (m_ids s)" by simp
  show ?case
  proof (cases "\<exists>i. out = Inr (Some i)")
    case True
    then obtain i where out: "out = Inr (Some i)" by blast
    with step_ids [of x s] st
    have i: "i = g_prefix (m_ids s) @ dec (Suc (g_counter (m_ids s)))"
      and c: "g_counter (m_ids s1) = Suc (g_counter (m_ids s))"
      by simp_all
    have "i \<notin> set (returned_ids outs)"
    proof
      assume "i \<in> set (returned_ids outs)"
      from ih(3) [OF this] obtain n where "g_counter (m_ids s1) < n"
        "i = g_prefix (m_ids s1) @ dec n" by blast
      with i p c have "dec (Suc (g_counter (m_ids s))) = dec n" "Suc (g_counter (m_ids s)) < n"
        by simp_all
      then show False by (auto dest: dec_inj)
    qed
    moreover have "\<forall>j \<in> set (returned_ids (out # outs)).
        \<exists>n. g_counter (m_ids s) < n \<and> n \<le> g_counter (m_ids s2) \<and> j = g_prefix (m_ids s) @ dec n"
    proof
      fix j assume "j \<in> set (returned_ids (out # outs))"
      then consider "j = i" | "j \<in> set (returned_ids outs)"
        by (auto simp: out)
      then show "\<exists>n. g_counter (m_ids s) < n \<and> n \<le> g_counter (m_ids s2) \<and>
          j = g_prefix (m_ids s) @ dec n"
      proof cases
        case 1
        with i c ih(2) show ?thesis
          by (intro exI [of _ "Suc (g_counter (m_ids s))"]) simp
      next
        case 2
        from ih(3) [OF this] obtain n where "g_counter (m_ids s1) < n" "n \<le> g_counter (m_ids s2)"
          "j = g_prefix (m_ids s1) @ dec n" by blast
        with c p show ?thesis
          by (intro exI [of _ n]) simp
      qed
    qed
    ultimately show ?thesis
      unfolding r using ih p c by (simp add: out)
  next
    case False
    then have ro: "returned_ids (out # outs) = returned_ids outs"
      by (cases "(out # outs)" rule: returned_ids.cases) auto
    from step_ids [of x s] st have c: "g_counter (m_ids s) \<le> g_counter (m_ids s1)"
      by simp
    have "\<forall>j \<in> set (returned_ids outs).
        \<exists>n. g_counter (m_ids s) < n \<and> n \<le> g_counter (m_ids s2) \<and> j = g_prefix (m_ids s) @ dec n"
    proof
      fix j assume "j \<in> set (returned_ids outs)"
      from ih(3) [OF this] obtain n where "g_counter (m_ids s1) < n" "n \<le> g_counter (m_ids s2)"
        "j = g_prefix (m_ids s1) @ dec n" by blast
      with c p show "\<exists>n. g_counter (m_ids s) < n \<and> n \<le> g_counter (m_ids s2) \<and>
          j = g_prefix (m_ids s) @ dec n"
        by (intro exI [of _ n]) simp
    qed
    then show ?thesis
      unfolding r using ih(1,2,4) p c by (simp add: ro)
  qed
qed

text \<open>
  Claim C5. Along any run of a manager (calls of its functions, events and timer ticks in
  any order, from any state) the ids that \<open>add\<close> returns are pairwise distinct, so each
  is distinct from every id returned before it; and when \<open>add\<close> returns an id,
  \<open>get(id)\<close> on the resulting manager returns the overlay object that this call has
  created (the reference that was unused before), which carries the id, the resolved
  element, the type, the position and the html of the call, and has its wrapper.
\<close>

theorem ids_unique_and_get:
  "distinct (returned_ids (fst (run xs s))) \<and>
   (\<forall>d element type overlay new_id s'.
      add d element type overlay s = (Inr new_id, s') \<longrightarrow>
      (\<exists>a ob. get d (SearchString new_id) s' = One a \<and> a = m_nextRef s \<and>
         ov_id (m_heap s' a) = new_id \<and>
         ov_element (m_heap s' a) = resolve_element d element \<and>
         ov_type (m_heap s' a) = type_given type \<and>
         overlay_given type overlay = Some ob \<and>
         Some (ov_position (m_heap s' a)) = cfg_position ob \<and>
         Some (ov_html (m_heap s' a)) = cfg_html ob \<and>
         ov_htmlContainer (m_heap s' a) \<noteq> None))"
proof (intro conjI allI impI)
  show "distinct (returned_ids (fst (run xs s)))"
    using run_ids [of xs s] by simp
next
  fix d element type overlay new_id s'
  assume a: "add d element type overlay s = (Inr new_id, s')"
  from a obtain ob position r where *: "overlay_given type overlay = Some ob"
    "cfg_position ob = Some position" "\<not> falsy_html (cfg_html ob)"
    "resolve_element d element = Some r" "d_jQuery d (the (cfg_html ob)) = None"
    "lookup (m_overlayContainers s) (container_key d (Some (ElemObj r))) \<noteq> Inherited"
    by (rule add_returns)
  from *(3) obtain h where h: "cfg_html ob = Some h"
    by (cases "cfg_html ob") (simp_all add: falsy_html_def)
  have ne: "new_id \<noteq> []"
    using a unfolding add_result [OF *] by (auto simp: dec_nonempty)
  show "\<exists>a ob. get d (SearchString new_id) s' = One a \<and> a = m_nextRef s \<and>
         ov_id (m_heap s' a) = new_id \<and>
         ov_element (m_heap s' a) = resolve_element d element \<and>
         ov_type (m_heap s' a) = type_given type \<and>
         overlay_given type overlay = Some ob \<and>
         Some (ov_position (m_heap s' a)) = cfg_position ob \<and>
         Some (ov_html (m_heap s' a)) = cfg_html ob \<and>
         ov_htmlContainer (m_heap s' a) \<noteq> None"
    using a ne unfolding add_result [OF *]
    by (auto simp: get_by_id update_conv' *(1-4) h lookup_def)
qed

lemma add_fst:
  assumes "overlay_given type overlay = Some ob" "cfg_position ob = Some position"
    "\<not> falsy_html (cfg_html ob)" "resolve_element d element = Some r"
    "d_jQuery d (the (cfg_html ob)) = None"
    "container_key d (Some (ElemObj r)) \<notin> set object_prototype_names"
  shows "fst (add d element type overlay s) =
    Inr (g_prefix (m_ids s) @ dec (Suc (g_counter (m_ids s))))"
proof -
  from assms(6) have "lookup (m_overlayContainers s) (container_key d (Some (ElemObj r))) \<noteq> Inherited"
    by (simp add: lookup_Inherited del: container_key.simps)
  then show ?thesis
    by (simp add: add_result [OF assms(1-5)] del: container_key.simps)
qed

lemma run_example:
  "returned_ids (fst (run
      [(0, diagram1, Add (ElemId ''shape1'') (TypeStr ''note'') (Some badge)),
       (10, diagram1, Remove (SearchString ''ov-1'')),
       (20, diagram1, Add (ElemObj 0) TypeNone (Some badge))] manager1)) = [''ov-1'', ''ov-2'']"
proof -
  obtain e s2 where 2: "remove diagram1 (SearchString ''ov-1'') manager2 = (e, s2)"
    by (cases "remove diagram1 (SearchString ''ov-1'') manager2")
  have "m_ids s2 = m_ids manager2"
    using remove_ids [of diagram1 "SearchString ''ov-1''" manager2] 2 by simp
  also have "m_ids manager2 = \<lparr>g_prefix = ''ov-'', g_counter = Suc 0\<rparr>"
    by (simp add: manager2_def add_result overlay_given_def badge_def falsy_html_def
      resolve_element_def diagram1_def shape1_def manager1_def Overlays_def ids1_def
      lookup_def object_prototype_names_def)
  finally have ids: "m_ids s2 = \<lparr>g_prefix = ''ov-'', g_counter = Suc 0\<rparr>" .
  have "fst (add diagram1 (ElemObj 0) TypeNone (Some badge) s2) =
      Inr (g_prefix (m_ids s2) @ dec (Suc (g_counter (m_ids s2))))"
    by (rule add_fst [where ob=badge and r=0])
      (simp_all add: resolve_element_def diagram1_def shape1_def overlay_given_def
        badge_def falsy_html_def object_prototype_names_def)
  then have "fst (add diagram1 (ElemObj 0) TypeNone (Some badge) s2) = Inr ''ov-2''"
    by (simp add: ids dec_2)
  then obtain s3 where 3: "add diagram1 (ElemObj 0) TypeNone (Some badge) s2 = (Inr ''ov-2'', s3)"
    by (cases "add diagram1 (ElemObj 0) TypeNone (Some badge) s2") simp
  show ?thesis
    by (cases e) (simp_all add: add_manager1 2 3 thrown_def)
qed

theorem ids_unique_and_get_witness:
  "returned_ids (fst (run
      [(0, diagram1, Add (ElemId ''shape1'') (TypeStr ''note'') (Some badge)),
       (10, diagram1, Remove (SearchString ''ov-1'')),
       (20, diagram1, Add (ElemObj 0) TypeNone (Some badge))] manager1)) = [''ov-1'', ''ov-2''] \<and>
   distinct (returned_ids (fst (run
      [(0, diagram1, Add (ElemId ''shape1'') (TypeStr ''note'') (Some badge)),
       (10, diagram1, Remove (SearchString ''ov-1'')),
       (20, diagram1, Add (ElemObj 0) TypeNone (Some badge))] manager1))) \<and>
   add diagram1 (ElemId ''shape1'') (TypeStr ''note'') (Some badge) manager1
     = (Inr ''ov-1'', manager2) \<and>
   (\<exists>a. get diagram1 (SearchString ''ov-1'') manager2 = One a \<and>
        ov_id (m_heap manager2 a) = ''ov-1'' \<and> ov_element (m_heap manager2 a) = Some 0 \<and>
        ov_type (m_heap manager2 a) = Some ''note'')"
  using ids_unique_and_get [of
      "[(0, diagram1, Add (ElemId ''shape1'') (TypeStr ''note'') (Some badge)),
        (10, diagram1, Remove (SearchString ''ov-1'')),
        (20, diagram1, Add (ElemObj 0) TypeNone (Some badge))]" manager1]
    add_manager1 run_example
  by (auto simp: resolve_element_def diagram1_def type_given_def)

subsection \<open>Debounced viewbox changes\<close>

lemma run_Cons: "snd (run (x # xs) s) = snd (run xs (snd (step x s)))"
  by (simp split: prod.splits)

lemma run_append: "snd (run (xs @ ys) s) = snd (run ys (snd (run xs s)))"
proof (induction xs arbitrary: s)
  case Nil
  show ?case by simp
next
  case (Cons x xs)
  show ?case
    by (simp only: append_Cons run_Cons Cons.IH)
qed

lemma deferred_event:
  assumes "m_deferUpdate s"
  shows "snd (step (t, d, ViewboxChanged vb) s) =
    s\<lparr>m_rootShown := False, m_pending := Some (t + debounce_wait, vb)\<rparr>"
  using assms
  by (simp add: on_viewbox_changed_def hide_overlays_def debounced_updateViewbox_def Let_def)

lemma early_tick:
  assumes "m_pending s = Some (due, vb)" "t < due"
  shows "snd (step (t, d, TimerFired) s) = s"
  using assms by (simp add: timer_fired_def)

lemma idle_tick:
  assumes "m_pending s = None"
  shows "snd (step (t, d, TimerFired) s) = s"
  using assms by (simp add: timer_fired_def)

lemma idle_ticks:
  assumes "m_pending s = None" "ticks xs"
  shows "snd (run xs s) = s"
  using assms
proof (induction xs arbitrary: s rule: ticks.induct)
  case 1
  show ?case by simp
next
  case (2 t d xs)
  then show ?case
    by (simp only: run_Cons idle_tick) simp
qed simp_all

lemma quiet_run:
  assumes "m_deferUpdate s" "m_pending s = Some (prev + debounce_wait, vb)" "\<not> m_rootShown s"
    "quiet prev xs"
  shows "snd (run xs s) =
    s\<lparr>m_pending := Some (fst (last_event (prev, vb) xs) + debounce_wait,
                         snd (last_event (prev, vb) xs))\<rparr>"
  using assms
proof (induction prev xs arbitrary: s vb rule: quiet.induct)
  case (1 prev)
  then show ?case by simp
next
  case (2 prev t d vb' xs)
  define s1 where "s1 = s\<lparr>m_rootShown := False, m_pending := Some (t + debounce_wait, vb')\<rparr>"
  have st: "snd (step (t, d, ViewboxChanged vb') s) = s1"
    unfolding s1_def by (rule deferred_event [OF "2.prems"(1)])
  have "snd (run xs s1) =
    s1\<lparr>m_pending := Some (fst (last_event (t, vb') xs) + debounce_wait,
                         snd (last_event (t, vb') xs))\<rparr>"
    using "2.prems" by (intro "2.IH") (simp_all add: s1_def)
  then show ?case
    using "2.prems"(3) by (simp only: run_Cons st) (simp add: s1_def)
next
  case (3 prev t d xs)
  have st: "snd (step (t, d, TimerFired) s) = s"
    using "3.prems" by (intro early_tick [of s "prev + debounce_wait" vb]) simp_all
  from "3.prems" "3.IH" [of s vb] show ?case
    by (simp only: run_Cons st) simp
qed simp_all

lemma visibility_each_frame [simp]:
  "m_passes (snd (visibility_each vb as s)) = m_passes s"
  "m_pending (snd (visibility_each vb as s)) = m_pending s"
  "m_deferUpdate (snd (visibility_each vb as s)) = m_deferUpdate s"
proof (induction as arbitrary: s)
  case Nil
  {
    case 1 show ?case by simp
  next
    case 2 show ?case by simp
  next
    case 3 show ?case by simp
  }
next
  case (Cons a as)
  {
    case 1 show ?case by (simp add: Let_def Cons.IH split: option.splits)
  next
    case 2 show ?case by (simp add: Let_def Cons.IH split: option.splits)
  next
    case 3 show ?case by (simp add: Let_def Cons.IH split: option.splits)
  }
qed

lemma updateViewbox_frame:
  "m_passes (snd (updateViewbox vb s)) = m_passes s @ [vb]"
  "m_pending (snd (updateViewbox vb s)) = m_pending s"
  "m_deferUpdate (snd (updateViewbox vb s)) = m_deferUpdate s"
proof -
  define s1 where "s1 = (updateRoot vb s)\<lparr>m_passes := m_passes (updateRoot vb s) @ [vb]\<rparr>"
  obtain e s2 where r: "visibility_each vb (map snd (m_overlays (updateRoot vb s))) s1 = (e, s2)"
    by (cases "visibility_each vb (map snd (m_overlays (updateRoot vb s))) s1")
  have s2: "s2 = snd (visibility_each vb (map snd (m_overlays (updateRoot vb s))) s1)"
    by (simp add: r)
  have "m_passes s2 = m_passes s @ [vb]" "m_pending s2 = m_pending s"
    "m_deferUpdate s2 = m_deferUpdate s"
    unfolding s2 by (simp_all add: s1_def updateRoot_def Let_def)
  with r show "m_passes (snd (updateViewbox vb s)) = m_passes s @ [vb]"
    "m_pending (snd (updateViewbox vb s)) = m_pending s"
    "m_deferUpdate (snd (updateViewbox vb s)) = m_deferUpdate s"
    by (cases e; simp add: updateViewbox_def updateOverlayVisibilty_def s1_def show_overlays_def)+
qed

lemma due_tick:
  assumes "m_pending s = Some (due, vb)" "due \<le> t"
  shows "snd (step (t, d, TimerFired) s) = snd (updateViewbox vb (s\<lparr>m_pending := None\<rparr>))"
  using assms by (simp add: timer_fired_def)

text \<open>
  Claim C9. Let the manager defer updates (which it does with the default configuration:
  no configuration, or one whose \<open>deferUpdate\<close> is not \<open>false\<close>), and let a viewbox
  change be followed by a burst in which each further change comes less than 300 ms after
  the one before it. During the burst no visibility pass runs, and one call is waiting:
  that with the viewbox of the last change, every change having replaced the call that
  waited before. When the timer then finds the call due, exactly one pass runs, with the
  viewbox of the last change, and later ticks run none.
\<close>

theorem debounced_burst_single_pass:
  assumes "m_deferUpdate s" "quiet ta xs"
    "fst (last_event (ta, va) xs) + debounce_wait \<le> t_end" "ticks ys"
  shows "m_passes (snd (run ((ta, da, ViewboxChanged va) # xs) s)) = m_passes s \<and>
    m_pending (snd (run ((ta, da, ViewboxChanged va) # xs) s)) =
      Some (fst (last_event (ta, va) xs) + debounce_wait, snd (last_event (ta, va) xs)) \<and>
    m_passes (snd (run (((ta, da, ViewboxChanged va) # xs) @ (t_end, db, TimerFired) # ys) s)) =
      m_passes s @ [snd (last_event (ta, va) xs)] \<and>
    debounce_wait = 300 \<and>
    m_deferUpdate (Overlays None ids) \<and>
    (\<forall>c. deferUpdate c \<noteq> Some False \<longrightarrow> m_deferUpdate (Overlays (Some c) ids))"
proof -
  define s1 where "s1 = s\<lparr>m_rootShown := False, m_pending := Some (ta + debounce_wait, va)\<rparr>"
  define s2 where "s2 = snd (run ((ta, da, ViewboxChanged va) # xs) s)"
  define e where "e = last_event (ta, va) xs"
  have "snd (run xs s1) = s1\<lparr>m_pending := Some (fst e + debounce_wait, snd e)\<rparr>"
    unfolding e_def using assms(1,2) by (intro quiet_run) (simp_all add: s1_def)
  then have s2: "s2 = s1\<lparr>m_pending := Some (fst e + debounce_wait, snd e)\<rparr>"
    unfolding s2_def by (simp only: run_Cons deferred_event [OF assms(1)] s1_def)
  have 1: "m_passes s2 = m_passes s" and 2: "m_pending s2 = Some (fst e + debounce_wait, snd e)"
    by (simp_all add: s2 s1_def)
  define s3 where "s3 = snd (step (t_end, db, TimerFired) s2)"
  have s3: "s3 = snd (updateViewbox (snd e) (s2\<lparr>m_pending := None\<rparr>))"
    unfolding s3_def using 2 assms(3) by (intro due_tick) (simp_all add: e_def)
  have p3: "m_passes s3 = m_passes s @ [snd e]" and n3: "m_pending s3 = None"
    by (simp_all add: s3 updateViewbox_frame 1)
  have "snd (run (((ta, da, ViewboxChanged va) # xs) @ (t_end, db, TimerFired) # ys) s)
      = snd (run ((t_end, db, TimerFired) # ys) s2)"
    by (simp only: run_append s2_def)
  also have "\<dots> = snd (run ys s3)"
    by (simp only: run_Cons s3_def)
  also have "\<dots> = s3"
    using n3 assms(4) by (rule idle_ticks)
  finally have 3: "m_passes (snd (run (((ta, da, ViewboxChanged va) # xs) @
      (t_end, db, TimerFired) # ys) s)) = m_passes s @ [snd e]"
    by (simp add: p3)
  have 4: "m_deferUpdate (Overlays None ids)"
    "\<forall>c. deferUpdate c \<noteq> Some False \<longrightarrow> m_deferUpdate (Overlays (Some c) ids)"
    by (simp_all add: Overlays_def)
  from 1 2 3 4 show ?thesis
    by (simp add: s2_def e_def debounce_wait_def)
qed

theorem debounced_burst_single_pass_witness:
  "m_deferUpdate manager1 \<and>
   quiet 0 [(50, diagram1, ViewboxChanged viewbox_b), (100, diagram1, ViewboxChanged viewbox_c)] \<and>
   fst (last_event (0, viewbox_a)
     [(50, diagram1, ViewboxChanged viewbox_b), (100, diagram1, ViewboxChanged viewbox_c)]) + debounce_wait
     \<le> 400 \<and>
   ticks [(500, diagram1, TimerFired)] \<and>
   m_passes (snd (run
     [(0, diagram1, ViewboxChanged viewbox_a), (50, diagram1, ViewboxChanged viewbox_b),
      (100, diagram1, ViewboxChanged viewbox_c)] manager1)) = [] \<and>
   m_pending (snd (run
     [(0, diagram1, ViewboxChanged viewbox_a), (50, diagram1, ViewboxChanged viewbox_b),
      (100, diagram1, ViewboxChanged viewbox_c)] manager1)) = Some (400, viewbox_c) \<and>
   m_passes (snd (run
     [(0, diagram1, ViewboxChanged viewbox_a), (50, diagram1, ViewboxChanged viewbox_b),
      (100, diagram1, ViewboxChanged viewbox_c), (400, diagram1, TimerFired),
      (500, diagram1, TimerFired)] manager1)) = [viewbox_c]"
proof -
  have d: "m_deferUpdate manager1" and p: "m_passes manager1 = []"
    by (simp_all add: manager1_def Overlays_def)
  have q: "quiet 0 [(50, diagram1, ViewboxChanged viewbox_b), (100, diagram1, ViewboxChanged viewbox_c)]"
    by (simp add: debounce_wait_def)
  have l: "fst (last_event (0, viewbox_a)
     [(50, diagram1, ViewboxChanged viewbox_b), (100, diagram1, ViewboxChanged viewbox_c)]) + debounce_wait
     \<le> 400"
    by (simp add: debounce_wait_def)
  have t: "ticks [(500, diagram1, TimerFired)]"
    by simp
  from debounced_burst_single_pass [OF d q l t, where da=diagram1 and db=diagram1 and ids=ids1]
    d q l t p
  show ?thesis
    by (simp add: debounce_wait_def)
qed

text \<open>
  The window matters: when the timer finds the first call due before the second change
  arrives, each change gets a pass of its own.
\<close>

lemma slow_events_two_passes:
  "m_passes (snd (run
     [(0, diagram1, ViewboxChanged viewbox_a), (300, diagram1, TimerFired),
      (400, diagram1, ViewboxChanged viewbox_b), (700, diagram1, TimerFired)] manager1)) = [viewbox_a, viewbox_b]"
  by (simp add: manager1_def Overlays_def on_viewbox_changed_def hide_overlays_def
      debounced_updateViewbox_def debounce_wait_def timer_fired_def updateViewbox_def
      updateOverlayVisibilty_def updateRoot_def show_overlays_def thrown_def Let_def)

lemma burst_state:
  assumes "m_deferUpdate s" "quiet ta xs"
  shows "snd (run ((ta, da, ViewboxChanged va) # xs) s) =
    s\<lparr>m_rootShown := False,
      m_pending := Some (fst (last_event (ta, va) xs) + debounce_wait,
                         snd (last_event (ta, va) xs))\<rparr>"
proof -
  define s1 where "s1 = s\<lparr>m_rootShown := False, m_pending := Some (ta + debounce_wait, va)\<rparr>"
  have "snd (run xs s1) = s1\<lparr>m_pending := Some (fst (last_event (ta, va) xs) + debounce_wait,
      snd (last_event (ta, va) xs))\<rparr>"
    using assms by (intro quiet_run) (simp_all add: s1_def)
  then show ?thesis
    by (simp only: run_Cons deferred_event [OF assms(1)] s1_def) simp
qed

text \<open>
  Claim C10. The handler of \<open>canvas.viewbox.changed\<close> hides the overlay root first
  and passes the hidden manager on to the update, which is deferred or runs at once.
  When updates are deferred, after a viewbox change and any burst that follows it the
  root is hidden, so that no overlay is displayed, whatever its own \<open>show\<close> policy and
  wrapper say, and no pass has run; in a consistent manager the root is shown again by
  the tick that finds the waiting call due. When updates are not deferred, the handler
  of a consistent manager runs the pass and leaves the root shown.
\<close>

theorem viewbox_change_hides_root:
  "on_viewbox_changed t vb s =
      (if m_deferUpdate s then (None, debounced_updateViewbox t vb (hide_overlays s))
       else updateViewbox vb (hide_overlays s)) \<and>
   \<not> m_rootShown (hide_overlays s) \<and>
   (m_deferUpdate s \<longrightarrow> quiet ta xs \<longrightarrow>
      \<not> m_rootShown (snd (run ((ta, da, ViewboxChanged va) # xs) s)) \<and>
      (\<forall>a. \<not> overlay_visible (snd (run ((ta, da, ViewboxChanged va) # xs) s)) a) \<and>
      m_passes (snd (run ((ta, da, ViewboxChanged va) # xs) s)) = m_passes s) \<and>
   (m_deferUpdate s \<longrightarrow> quiet ta xs \<longrightarrow> consistent d s \<longrightarrow>
      fst (last_event (ta, va) xs) + debounce_wait \<le> t_end \<longrightarrow>
      m_rootShown (snd (run (((ta, da, ViewboxChanged va) # xs) @ [(t_end, db, TimerFired)]) s))) \<and>
   (\<not> m_deferUpdate s \<longrightarrow> consistent d s \<longrightarrow>
      (\<exists>s'. on_viewbox_changed t vb s = (None, s') \<and> m_rootShown s' \<and>
            m_passes s' = m_passes s @ [vb]))"
proof (intro conjI impI)
  show "on_viewbox_changed t vb s =
      (if m_deferUpdate s then (None, debounced_updateViewbox t vb (hide_overlays s))
       else updateViewbox vb (hide_overlays s))"
    by (simp add: on_viewbox_changed_def Let_def hide_overlays_def)
  show "\<not> m_rootShown (hide_overlays s)"
    by (simp add: hide_overlays_def)
next
  assume a: "m_deferUpdate s" "quiet ta xs"
  note b = burst_state [OF a, where da=da and va=va]
  show "\<not> m_rootShown (snd (run ((ta, da, ViewboxChanged va) # xs) s))"
    unfolding b by simp
  show "\<forall>a. \<not> overlay_visible (snd (run ((ta, da, ViewboxChanged va) # xs) s)) a"
    unfolding b by (simp add: overlay_visible_def)
  show "m_passes (snd (run ((ta, da, ViewboxChanged va) # xs) s)) = m_passes s"
    unfolding b by simp
next
  assume a: "m_deferUpdate s" "quiet ta xs" and c: "consistent d s"
    and l: "fst (last_event (ta, va) xs) + debounce_wait \<le> t_end"
  define s2 where "s2 = snd (run ((ta, da, ViewboxChanged va) # xs) s)"
  note b = burst_state [OF a, where da=da and va=va, folded s2_def]
  have p: "m_pending s2 = Some (fst (last_event (ta, va) xs) + debounce_wait,
      snd (last_event (ta, va) xs))"
    by (simp add: b)
  have "consistent d (s2\<lparr>m_pending := None\<rparr>)"
    using c by (simp add: b)
  from updateViewbox_result [OF this, of "snd (last_event (ta, va) xs)"]
  have "m_rootShown (snd (updateViewbox (snd (last_event (ta, va) xs)) (s2\<lparr>m_pending := None\<rparr>)))"
    by simp
  then have "m_rootShown (snd (step (t_end, db, TimerFired) s2))"
    by (simp only: due_tick [OF p l])
  moreover have "snd (run (((ta, da, ViewboxChanged va) # xs) @ [(t_end, db, TimerFired)]) s)
      = snd (step (t_end, db, TimerFired) s2)"
    by (simp only: run_append run_Cons run.simps(1) snd_conv s2_def)
  ultimately show "m_rootShown (snd (run (((ta, da, ViewboxChanged va) # xs) @
      [(t_end, db, TimerFired)]) s))"
    by (simp only:)
next
  assume a: "\<not> m_deferUpdate s" and c: "consistent d s"
  have "consistent d (hide_overlays s)"
    using c by (simp add: hide_overlays_def)
  from updateViewbox_result [OF this, of vb] a
  show "\<exists>s'. on_viewbox_changed t vb s = (None, s') \<and> m_rootShown s' \<and>
            m_passes s' = m_passes s @ [vb]"
    by (simp add: on_viewbox_changed_def Let_def hide_overlays_def)
qed

theorem viewbox_change_hides_root_witness:
  "m_deferUpdate manager3 \<and> consistent diagram1 manager3 \<and>
   quiet 0 [(50, diagram1, ViewboxChanged viewbox_b), (100, diagram1, ViewboxChanged viewbox_c)] \<and>
   \<not> m_rootShown (snd (run
     [(0, diagram1, ViewboxChanged viewbox_a), (50, diagram1, ViewboxChanged viewbox_b),
      (100, diagram1, ViewboxChanged viewbox_c)] manager3)) \<and>
   \<not> overlay_visible (snd (run
     [(0, diagram1, ViewboxChanged viewbox_a), (50, diagram1, ViewboxChanged viewbox_b),
      (100, diagram1, ViewboxChanged viewbox_c)] manager3)) 0 \<and>
   m_rootShown (snd (run
     [(0, diagram1, ViewboxChanged viewbox_a), (50, diagram1, ViewboxChanged viewbox_b),
      (100, diagram1, ViewboxChanged viewbox_c), (400, diagram1, TimerFired)] manager3)) \<and>
   \<not> m_deferUpdate (Overlays (Some \<lparr>deferUpdate = Some False\<rparr>) ids1) \<and>
   (\<exists>s'. on_viewbox_changed 0 viewbox_a (Overlays (Some \<lparr>deferUpdate = Some False\<rparr>) ids1)
           = (None, s') \<and> m_rootShown s')"
proof -
  have d: "m_deferUpdate manager3"
    by (simp add: manager3_def add_result overlay_given_def zoom_note_def falsy_html_def
      resolve_element_def diagram1_def shape1_def manager1_def Overlays_def
      lookup_def object_prototype_names_def)
  have q: "quiet 0 [(50, diagram1, ViewboxChanged viewbox_b), (100, diagram1, ViewboxChanged viewbox_c)]"
    by (simp add: debounce_wait_def)
  have n: "\<not> m_deferUpdate (Overlays (Some \<lparr>deferUpdate = Some False\<rparr>) ids1)"
    by (simp add: Overlays_def)
  have c: "consistent diagram1 (Overlays (Some \<lparr>deferUpdate = Some False\<rparr>) ids1)"
    by (rule consistent_Overlays)
  have l: "fst (last_event (0, viewbox_a)
     [(50, diagram1, ViewboxChanged viewbox_b), (100, diagram1, ViewboxChanged viewbox_c)]) + debounce_wait
     \<le> 400"
    by (simp add: debounce_wait_def)
  have a: "[(0, diagram1, ViewboxChanged viewbox_a), (50, diagram1, ViewboxChanged viewbox_b),
      (100, diagram1, ViewboxChanged viewbox_c), (400, diagram1, TimerFired)] =
     ((0, diagram1, ViewboxChanged viewbox_a) #
      [(50, diagram1, ViewboxChanged viewbox_b), (100, diagram1, ViewboxChanged viewbox_c)]) @
     [(400, diagram1, TimerFired)]"
    by simp
  note T = viewbox_change_hides_root [where t=0 and vb=viewbox_a and s=manager3 and ta=0 and
      xs="[(50, diagram1, ViewboxChanged viewbox_b), (100, diagram1, ViewboxChanged viewbox_c)]" and
      da=diagram1 and va=viewbox_a and d=diagram1 and t_end=400 and db=diagram1]
  note U = viewbox_change_hides_root [where t=0 and vb=viewbox_a and
      s="Overlays (Some \<lparr>deferUpdate = Some False\<rparr>) ids1" and d=diagram1]
  from T d q have 1: "\<not> m_rootShown (snd (run
     [(0, diagram1, ViewboxChanged viewbox_a), (50, diagram1, ViewboxChanged viewbox_b),
      (100, diagram1, ViewboxChanged viewbox_c)] manager3))"
    and 2: "\<not> overlay_visible (snd (run
     [(0, diagram1, ViewboxChanged viewbox_a), (50, diagram1, ViewboxChanged viewbox_b),
      (100, diagram1, ViewboxChanged viewbox_c)] manager3)) 0"
    by blast+
  from T d q l consistent_manager3 have 3: "m_rootShown (snd (run
     [(0, diagram1, ViewboxChanged viewbox_a), (50, diagram1, ViewboxChanged viewbox_b),
      (100, diagram1, ViewboxChanged viewbox_c), (400, diagram1, TimerFired)] manager3))"
    unfolding a by blast
  from U n c have 4: "\<exists>s'. on_viewbox_changed 0 viewbox_a
      (Overlays (Some \<lparr>deferUpdate = Some False\<rparr>) ids1) = (None, s') \<and> m_rootShown s'"
    by blast
  from d consistent_manager3 q 1 2 3 n 4 show ?thesis
    by (intro conjI)
qed

subsection \<open>Every step keeps the manager consistent\<close>

lemma distinct_refs: "consistent d s \<Longrightarrow> distinct (map snd (m_overlays s))"
  by (simp add: consistent_def)

lemma consistent_remove:
  assumes "consistent d s"
  shows "consistent d (snd (remove d flt s))"
proof -
  define as where "as = (case get d flt s of One a \<Rightarrow> [a] | Many as \<Rightarrow> as | _ \<Rightarrow> [])"
  have "set as \<subseteq> snd ` set (m_overlays s) \<and> distinct as"
  proof (cases flt)
    case (SearchString str)
    show ?thesis
    proof (cases "map_of (m_overlays s) str")
      case None
      then show ?thesis by (simp add: as_def SearchString get_by_id lookup_def)
    next
      case (Some a)
      then have "(str, a) \<in> set (m_overlays s)" by (rule map_of_SomeD)
      then have "a \<in> snd ` set (m_overlays s)" by force
      with Some show ?thesis by (simp add: as_def SearchString get_by_id lookup_def)
    qed
  next
    case (SearchObj q)
    note cr = consistent_container_refs [OF assms]
    have f: "\<And>t xs. set xs \<subseteq> snd ` set (m_overlays s) \<Longrightarrow> distinct xs \<Longrightarrow>
        set (filter_type s t xs) \<subseteq> snd ` set (m_overlays s) \<and> distinct (filter_type s t xs)"
      by (auto simp: filter_type_def)
    show ?thesis
    proof (cases "truthy_elem (s_element q)")
      case True
      show ?thesis
      proof (cases "m_overlayContainers s (container_key d (s_element q))")
        case None
        with True show ?thesis
          by (simp add: as_def SearchObj get.simps get_search_def getOverlayContainer_def
              lookup_def)
      next
        case (Some c)
        then have "c_overlays c = container_overlays s (container_key d (s_element q))"
          by (simp add: container_overlays_def)
        with cr [of "container_key d (s_element q)"]
        have "set (c_overlays c) \<subseteq> snd ` set (m_overlays s)" "distinct (c_overlays c)"
          by simp_all
        with f [of "c_overlays c" "s_type q"] True Some show ?thesis
          by (simp add: as_def SearchObj get.simps get_search_def getOverlayContainer_def
              lookup_def)
      qed
    next
      case False
      have "set (map snd (m_overlays s)) \<subseteq> snd ` set (m_overlays s)"
        "distinct (map snd (m_overlays s))"
        using distinct_refs [OF assms] by simp_all
      note ft = f [OF this, of "s_type q"]
      show ?thesis
      proof (cases "map_of (m_overlays s) (the (s_id q))")
        case None
        with False ft show ?thesis
          by (simp add: as_def SearchObj get.simps get_search_def lookup_def)
      next
        case (Some a)
        then have "(the (s_id q), a) \<in> set (m_overlays s)" by (rule map_of_SomeD)
        then have "a \<in> snd ` set (m_overlays s)" by force
        with Some False ft show ?thesis
          by (simp add: as_def SearchObj get.simps get_search_def lookup_def)
      qed
    qed
  qed
  then have "set as \<subseteq> snd ` set (m_overlays s)" "distinct as" by simp_all
  from remove_each_consistent [OF assms this]
  have c: "consistent d (snd (remove_each d as s))" by auto
  show ?thesis
  proof (cases "get d flt s")
    case (One a)
    with c show ?thesis by (simp only: remove_def as_def get_result.case)
  next
    case (Many bs)
    with c show ?thesis by (simp only: remove_def as_def get_result.case)
  qed (use assms in \<open>simp_all add: remove_def\<close>)
qed

lemma consistent_on_element_remove:
  assumes "consistent d s"
  shows "consistent d (snd (on_element_remove d r s))"
proof (cases "m_overlayContainers s (container_key d (Some (ElemObj r)))")
  case None
  with assms show ?thesis
    by (simp add: on_element_remove_def get.simps get_search_def truthy_elem_def
        getOverlayContainer_def lookup_def del: container_key.simps)
next
  case (Some c)
  then have "c_overlays c = container_overlays s (container_key d (Some (ElemObj r)))"
    by (simp add: container_overlays_def)
  with consistent_container_refs [OF assms, of "container_key d (Some (ElemObj r))"]
  have "set (c_overlays c) \<subseteq> snd ` set (m_overlays s)" "distinct (c_overlays c)"
    by simp_all
  from remove_ids_each_consistent [OF assms this]
  have "consistent d (snd (remove_ids_each d (c_overlays c) s))" by auto
  with Some show ?thesis
    by (simp add: on_element_remove_def get.simps get_search_def truthy_elem_def
        truthy_str_def getOverlayContainer_def lookup_def del: container_key.simps)
qed

lemma consistent_on_marker_update:
  assumes "consistent d s"
  shows "consistent d (snd (on_marker_update d r marker adding s))"
proof (cases "m_overlayContainers s (container_key d (Some (ElemObj r)))")
  case None
  with assms show ?thesis
    by (simp add: on_marker_update_def getOverlayContainer_def lookup_def
        del: container_key.simps)
next
  case (Some c)
  from consistent_container_update [OF assms Some,
      of "c\<lparr>c_classes := (if adding
                          then (if marker \<in> set (c_classes c) then c_classes c
                                else c_classes c @ [marker])
                          else removeAll marker (c_classes c))\<rparr>"] Some
  show ?thesis
    by (simp add: on_marker_update_def getOverlayContainer_def Let_def lookup_def
        del: container_key.simps)
qed

lemma consistent_timer_fired:
  assumes "consistent d s"
  shows "consistent d (snd (timer_fired now s))"
proof (cases "m_pending s")
  case None
  with assms show ?thesis by (simp add: timer_fired_def)
next
  case (Some p)
  obtain due vb where p: "p = (due, vb)" by (cases p)
  have "consistent d (s\<lparr>m_pending := None\<rparr>)"
    using assms by simp
  from consistent_updateViewbox [OF this, of vb] assms Some p show ?thesis
    by (simp add: timer_fired_def)
qed

lemma consistent_on_viewbox_changed:
  assumes "consistent d s"
  shows "consistent d (snd (on_viewbox_changed now vb s))"
proof -
  have "consistent d (hide_overlays s)"
    using assms by (simp add: hide_overlays_def)
  from consistent_updateViewbox [OF this, of vb] this show ?thesis
    by (simp add: on_viewbox_changed_def Let_def debounced_updateViewbox_def)
qed

lemma consistent_step:
  assumes "consistent d s"
  shows "consistent d (snd (step (now, d, act) s))"
proof (cases act)
  case (Add element type overlay)
  obtain res s1 where a: "add d element type overlay s = (res, s1)"
    by (cases "add d element type overlay s")
  with consistent_add [OF assms, of element type overlay] show ?thesis
    by (cases res) (simp_all add: Add)
next
  case (Remove flt)
  with consistent_remove [OF assms] show ?thesis by simp
next
  case Show
  with assms show ?thesis by (simp add: show_overlays_def)
next
  case Hide
  with assms show ?thesis by (simp add: hide_overlays_def)
next
  case (ViewboxChanged vb)
  with consistent_on_viewbox_changed [OF assms] show ?thesis by simp
next
  case (ElementRemove r)
  with consistent_on_element_remove [OF assms] show ?thesis by simp
next
  case (ElementChanged r)
  with consistent_on_element_changed [OF assms] show ?thesis by simp
next
  case (MarkerUpdate r marker adding)
  with consistent_on_marker_update [OF assms] show ?thesis by simp
next
  case TimerFired
  with consistent_timer_fired [OF assms] show ?thesis by simp
qed

text \<open>
  Every manager that a run reaches from a new manager is consistent, as long as the
  elements of the diagram keep their ids.
\<close>

lemma consistent_run:
  assumes "consistent d s"
    and "\<forall>(now, d', act) \<in> set xs. \<forall>r. el_id (d_elements d' r) = el_id (d_elements d r)"
  shows "consistent d (snd (run xs s))"
  using assms
proof (induction xs arbitrary: s)
  case Nil
  then show ?case by simp
next
  case (Cons x xs)
  obtain now d' act where x: "x = (now, d', act)" by (cases x)
  from Cons.prems(2) x have ids: "\<And>r. el_id (d_elements d' r) = el_id (d_elements d r)"
    by simp
  have "consistent d' s"
    by (rule consistent_same_ids [OF Cons.prems(1) ids])
  then have "consistent d' (snd (step (now, d', act) s))"
    by (rule consistent_step)
  then have "consistent d (snd (step x s))"
    unfolding x by (rule consistent_same_ids) (simp add: ids)
  moreover from Cons.prems(2)
  have "\<forall>(now, d', act) \<in> set xs. \<forall>r. el_id (d_elements d' r) = el_id (d_elements d r)"
    by simp
  ultimately have "consistent d (snd (run xs (snd (step x s))))"
    by (rule Cons.IH)
  then show ?case
    by (simp only: run_Cons)
qed

lemma reachable_consistent:
  assumes "\<forall>(now, d', act) \<in> set xs. \<forall>r. el_id (d_elements d' r) = el_id (d_elements d r)"
  shows "consistent d (snd (run xs (Overlays cfg ids)))"
  by (rule consistent_run [OF consistent_Overlays assms])

end
